theory Spec2Isabelle
  imports Main "HOL-Library.Char_ord" "HOL-Library.List_Lexorder" "HOL-Library.Product_Lexorder"
begin

unbundle bit_operations_syntax

section \<open>Errors raised by the modelled code\<close>

text \<open>
  Every exception of the Python source is a value. \<open>KeyError\<close> carries its arguments
  (one string for a name or a formatted message, two for a map and configuration name);
  \<open>RecursionError\<close> is what the interpreter raises when the call depth passes its
  recursion limit; \<open>MapIntegrityError\<close> carries the failed rule and the identifiers that
  its message joins (a Python set, so their order in the message is not determined).
\<close>

datatype integrity_rule =
    AmbiguousNames | MissingGroupRefs | DuplicatedVolumes | MissingShares
  | MissingBinds | MissingVolumeNames | MissingLinks | MissingNetworks

datatype error =
    KeyError "string list"
  | ValueError string
  | AttributeError
  | TypeError
  | RecursionError
  | MapIntegrityError integrity_rule "string set"

section \<open>policy/utils.py: update_kwargs\<close>

text \<open>
  The values a keyword-argument dictionary holds. A dictionary is an association list in
  insertion order with one entry per key.
\<close>

datatype pyval =
    PNone
  | PBool bool
  | PInt int
  | PStr string
  | PList "pyval list"
  | PTuple "pyval list"
  | PDict "(string \<times> pyval) list"

type_synonym pydict = "(string \<times> pyval) list"

text \<open>Python truth value: \<open>not v\<close> is \<open>\<not> truthy v\<close>.\<close>

fun truthy :: "pyval \<Rightarrow> bool" where
  "truthy PNone = False"
| "truthy (PBool b) = b"
| "truthy (PInt i) = (i \<noteq> 0)"
| "truthy (PStr s) = (s \<noteq> [])"
| "truthy (PList xs) = (xs \<noteq> [])"
| "truthy (PTuple xs) = (xs \<noteq> [])"
| "truthy (PDict d) = (d \<noteq> [])"

text \<open>\<open>d[key] = v\<close>: replace the value of an existing key in place, else append.\<close>

fun dict_set :: "pydict \<Rightarrow> string \<Rightarrow> pyval \<Rightarrow> pydict" where
  "dict_set [] k v = [(k, v)]"
| "dict_set ((k', v') # d) k v = (if k' = k then (k, v) # d else (k', v') # dict_set d k v)"

text \<open>\<open>d.get(key)\<close>, with \<open>None\<close> for a missing key.\<close>

definition dict_get :: "pydict \<Rightarrow> string \<Rightarrow> pyval option" where
  "dict_get d k = map_of d k"

text \<open>\<open>d.update(u)\<close>.\<close>

fun dict_update :: "pydict \<Rightarrow> pydict \<Rightarrow> pydict" where
  "dict_update d [] = d"
| "dict_update d ((k, v) # u) = dict_update (dict_set d k v) u"

text \<open>
  The body of the inner loop for one \<open>(key, u_item)\<close>. \<open>kw_item\<close> is \<open>kwargs.get(key)\<close>;
  a missing key gives \<open>None\<close>, which is falsy. \<open>extend\<close> exists on lists only and \<open>update\<close> on
  dictionaries only: on any other truthy \<open>kw_item\<close> the call raises AttributeError and
  \<open>kwargs\<close> is left as it was.
\<close>

definition update_entry :: "pydict \<Rightarrow> string \<Rightarrow> pyval \<Rightarrow> error + pydict" where
  "update_entry kwargs key u_item =
     (if \<not> truthy u_item then Inr kwargs
      else
        let kw_item = (case dict_get kwargs key of None \<Rightarrow> PNone | Some v \<Rightarrow> v) in
        (case u_item of
           PList us \<Rightarrow>
             (if truthy kw_item then
                (case kw_item of
                   PList ks \<Rightarrow> Inr (dict_set kwargs key (PList (ks @ us)))
                 | _ \<Rightarrow> Inl AttributeError)
              else Inr (dict_set kwargs key (PList us)))
         | PTuple us \<Rightarrow>
             (if truthy kw_item then
                (case kw_item of
                   PList ks \<Rightarrow> Inr (dict_set kwargs key (PList (ks @ us)))
                 | _ \<Rightarrow> Inl AttributeError)
              else Inr (dict_set kwargs key (PTuple us)))
         | PDict ud \<Rightarrow>
             (if truthy kw_item then
                (case kw_item of
                   PDict kd \<Rightarrow> Inr (dict_set kwargs key (PDict (dict_update kd ud)))
                 | _ \<Rightarrow> Inl AttributeError)
              else Inr (dict_set kwargs key (PDict ud)))
         | _ \<Rightarrow> Inr (dict_set kwargs key u_item)))"

text \<open>
  The inner loop over one update dictionary. The function mutates \<open>kwargs\<close> in place, so
  the model returns the dictionary as it stands when the loop ends or an exception leaves
  it, together with that exception.
\<close>

fun update_items :: "pydict \<Rightarrow> pydict \<Rightarrow> pydict \<times> error option" where
  "update_items kwargs [] = (kwargs, None)"
| "update_items kwargs ((key, u_item) # rest) =
     (case update_entry kwargs key u_item of
        Inl e \<Rightarrow> (kwargs, Some e)
      | Inr kwargs' \<Rightarrow> update_items kwargs' rest)"

text \<open>
  \<open>update_kwargs(kwargs, *updates)\<close>. An update is \<open>None\<close> or a dictionary; \<open>None\<close> and the
  empty dictionary are skipped by \<open>if not update: continue\<close>.
\<close>

fun update_kwargs :: "pydict \<Rightarrow> pydict option list \<Rightarrow> pydict \<times> error option" where
  "update_kwargs kwargs [] = (kwargs, None)"
| "update_kwargs kwargs (update # updates) =
     (case update of
        None \<Rightarrow> update_kwargs kwargs updates
      | Some u \<Rightarrow>
          (if u = [] then update_kwargs kwargs updates
           else
             (case update_items kwargs u of
                (kwargs', Some e) \<Rightarrow> (kwargs', Some e)
              | (kwargs', None) \<Rightarrow> update_kwargs kwargs' updates)))"

section \<open>state/base.py: ContainerBaseState.get_state\<close>

text \<open>
  The constants of \<open>dockermap.map.state\<close> and \<open>dockermap.map.input\<close> are imported by
  \<open>state/base.py\<close> and defined in modules outside the modelled sources. The three base states
  and the item types are only compared and returned, so they are constructors; an item type
  that is none of the three constants is \<open>ITEM_TYPE_other\<close>. The sentinel start time and the
  four state flags are parameters of the model (\<open>state_consts\<close>): the flags are integers
  combined with \<open>|=\<close>.
\<close>

datatype base_state = STATE_ABSENT | STATE_PRESENT | STATE_RUNNING

datatype item_type =
  ITEM_TYPE_CONTAINER | ITEM_TYPE_VOLUME | ITEM_TYPE_NETWORK | ITEM_TYPE_other string

record state_consts =
  INITIAL_START_TIME :: string
  STATE_FLAG_INITIAL :: int
  STATE_FLAG_RESTARTING :: int
  STATE_FLAG_NONRECOVERABLE :: int
  STATE_FLAG_OUTDATED :: int

text \<open>The \<open>State\<close> entry of an inspected container, and the detail an inspection stores.\<close>

record container_status =
  Running :: bool
  StartedAt :: string
  ExitCode :: int
  Restarting :: bool

datatype detail = NOT_FOUND | Detail container_status

text \<open>
  The options of the state generator: \<open>nonrecoverable_exit_codes\<close> and \<open>force_update\<close>, which
  is \<open>None\<close> or a collection of \<open>(type, map, config, instance)\<close> tuples.
\<close>

record state_options =
  nonrecoverable_exit_codes :: "int list"
  force_update :: "(item_type \<times> string \<times> string \<times> string option) list option"

text \<open>The attributes of a \<open>ContainerBaseState\<close> that \<open>get_state\<close> reads.\<close>

record container_base_state =
  options :: state_options
  map_name :: string
  config_name :: string
  instance_name :: "string option"
  detail :: detail

text \<open>
  \<open>force_update and (ITEM_TYPE_CONTAINER, map_name, config_name, instance_name) in
  force_update\<close>: \<open>None\<close> and an empty collection are falsy.
\<close>

definition forced :: "container_base_state \<Rightarrow> bool" where
  "forced self =
     (case force_update (options self) of
        None \<Rightarrow> False
      | Some fu \<Rightarrow>
          fu \<noteq> [] \<and>
          (ITEM_TYPE_CONTAINER, map_name self, config_name self, instance_name self) \<in> set fu)"

text \<open>
  \<open>get_state\<close> returns \<open>(base_state, state_flag, {})\<close>; the third component is always the empty
  dictionary and is left out.
\<close>

definition get_state :: "state_consts \<Rightarrow> container_base_state \<Rightarrow> base_state \<times> int" where
  "get_state K self =
     (case detail self of
        NOT_FOUND \<Rightarrow> (STATE_ABSENT, 0)
      | Detail c_status \<Rightarrow>
          (let (base_state, state_flag) =
                 (if Running c_status then (STATE_RUNNING, 0)
                  else
                    (let state_flag =
                           (if StartedAt c_status = INITIAL_START_TIME K
                              then STATE_FLAG_INITIAL K
                            else if ExitCode c_status
                                      \<in> set (nonrecoverable_exit_codes (options self))
                              then STATE_FLAG_NONRECOVERABLE K
                            else 0)
                     in (STATE_PRESENT,
                         if Restarting c_status then state_flag OR STATE_FLAG_RESTARTING K
                         else state_flag)))
           in (base_state,
               if forced self then state_flag OR STATE_FLAG_OUTDATED K else state_flag)))"

text \<open>A flag is set in a flag word when all of its bits are.\<close>

definition has_flag :: "int \<Rightarrow> int \<Rightarrow> bool" where
  "has_flag flag state_flag = (state_flag AND flag = flag)"

text \<open>
  The flags form an independent bit set: none is zero and no two of them share a bit.
\<close>

definition independent_flags :: "state_consts \<Rightarrow> bool" where
  "independent_flags K =
     (STATE_FLAG_INITIAL K \<noteq> 0 \<and> STATE_FLAG_RESTARTING K \<noteq> 0
      \<and> STATE_FLAG_NONRECOVERABLE K \<noteq> 0 \<and> STATE_FLAG_OUTDATED K \<noteq> 0
      \<and> STATE_FLAG_INITIAL K AND STATE_FLAG_RESTARTING K = 0
      \<and> STATE_FLAG_INITIAL K AND STATE_FLAG_NONRECOVERABLE K = 0
      \<and> STATE_FLAG_INITIAL K AND STATE_FLAG_OUTDATED K = 0
      \<and> STATE_FLAG_RESTARTING K AND STATE_FLAG_NONRECOVERABLE K = 0
      \<and> STATE_FLAG_RESTARTING K AND STATE_FLAG_OUTDATED K = 0
      \<and> STATE_FLAG_NONRECOVERABLE K AND STATE_FLAG_OUTDATED K = 0)"

text \<open>Concrete values used for evaluation: single bits, and Docker's zero timestamp.\<close>

definition example_consts :: state_consts where
  "example_consts =
     \<lparr>INITIAL_START_TIME = ''0001-01-01T00:00:00Z'',
      STATE_FLAG_INITIAL = 1, STATE_FLAG_RESTARTING = 2,
      STATE_FLAG_NONRECOVERABLE = 1024, STATE_FLAG_OUTDATED = 2048\<rparr>"

definition example_options :: state_options where
  "example_options = \<lparr>nonrecoverable_exit_codes = [-127, -1], force_update = None\<rparr>"

text \<open>States used for evaluation.\<close>

definition web1_initial :: container_base_state where
  "web1_initial =
     \<lparr>options = example_options, map_name = ''m'', config_name = ''web'',
      instance_name = Some ''1'',
      detail = Detail \<lparr>Running = False, StartedAt = ''0001-01-01T00:00:00Z'',
                       ExitCode = 0, Restarting = False\<rparr>\<rparr>"

definition web1_failed :: container_base_state where
  "web1_failed =
     \<lparr>options = example_options, map_name = ''m'', config_name = ''web'',
      instance_name = Some ''1'',
      detail = Detail \<lparr>Running = False, StartedAt = ''0001-01-01T00:00:00Z'',
                       ExitCode = -1, Restarting = False\<rparr>\<rparr>"

definition web1_absent_forced :: container_base_state where
  "web1_absent_forced =
     \<lparr>options = \<lparr>nonrecoverable_exit_codes = [-127, -1],
                 force_update = Some [(ITEM_TYPE_CONTAINER, ''m'', ''web'', Some ''1'')]\<rparr>,
      map_name = ''m'', config_name = ''web'', instance_name = Some ''1'',
      detail = NOT_FOUND\<rparr>"

definition web1_running_forced :: container_base_state where
  "web1_running_forced =
     \<lparr>options = \<lparr>nonrecoverable_exit_codes = [-127, -1],
                 force_update = Some [(ITEM_TYPE_CONTAINER, ''m'', ''web'', Some ''1'')]\<rparr>,
      map_name = ''m'', config_name = ''web'', instance_name = Some ''1'',
      detail = Detail \<lparr>Running = True, StartedAt = ''2017-03-01T10:00:00Z'',
                       ExitCode = 0, Restarting = False\<rparr>\<rparr>"

section \<open>config/main.py: the container map\<close>

text \<open>
  The attributes of a \<open>ContainerConfiguration\<close> that the modelled functions read. A \<open>uses\<close>
  entry is \<open>(volume, readonly)\<close>, a \<open>links\<close> entry \<open>(container, alias)\<close>, a \<open>binds\<close> entry
  \<open>(volume, readonly)\<close> whose volume is an alias or a tuple of paths. \<open>network\<close> is a tuple
  \<open>(unit, instance)\<close> or any other value.
\<close>

datatype volume_ref = VolumeAlias string | VolumeTuple string string

datatype network_ref = NetworkOther "string option" | NetworkTuple string "string option"

record container_configuration =
  extends :: "string list"
  abstract :: bool
  instances :: "string list"
  shares :: "string list"
  binds :: "(volume_ref \<times> bool) list"
  uses :: "(string \<times> bool) list"
  attaches :: "string list"
  links :: "(string \<times> string option) list"
  network :: network_ref
  clients :: "string list"
  persistent :: bool

record network_configuration =
  driver_options :: pydict

text \<open>
  A \<open>ContainerMap\<close>. \<open>containers\<close> and \<open>networks\<close> are the dictionaries \<open>_containers\<close> and
  \<open>_networks\<close> in iteration order, \<open>extended\<close> is \<open>_extended\<close>, \<open>map_clients\<close> is the map's
  \<open>clients\<close> property (the name \<open>clients\<close> is the configuration's), \<open>host\<close> holds the aliases
  of the host volume configuration and \<open>host_root\<close> its root.
\<close>

record container_map =
  name :: string
  extended :: bool
  containers :: "(string \<times> container_configuration) list"
  networks :: "(string \<times> network_configuration) list"
  repository :: "string option"
  host :: "(string \<times> pyval) list"
  host_root :: "string option"
  volumes :: "(string \<times> string) list"
  map_clients :: "string list"
  groups :: "(string \<times> string list) list"
  default_domain :: "string option"
  set_hostname :: bool
  use_attached_parent_name :: bool
  default_tag :: string

text \<open>\<open>d[key] = value\<close> on a dictionary kept in insertion order.\<close>

fun set_item :: "('k \<times> 'v) list \<Rightarrow> 'k \<Rightarrow> 'v \<Rightarrow> ('k \<times> 'v) list" where
  "set_item [] k v = [(k, v)]"
| "set_item ((k', v') # d) k v = (if k' = k then (k, v) # d else (k', v') # set_item d k v)"

text \<open>\<open>ContainerMap.__iter__\<close>: the items of the non-abstract configurations.\<close>

definition iter_map :: "container_map \<Rightarrow> (string \<times> container_configuration) list" where
  "iter_map self = filter (\<lambda>(c_name, c_config). \<not> abstract c_config) (containers self)"

text \<open>\<open>get_existing\<close> is \<open>self._containers.get(item)\<close>.\<close>

definition get_existing :: "container_map \<Rightarrow> string \<Rightarrow> container_configuration option" where
  "get_existing self item = map_of (containers self) item"

definition get_existing_network :: "container_map \<Rightarrow> string \<Rightarrow> network_configuration option" where
  "get_existing_network self item = map_of (networks self) item"

subsection \<open>get_extended and get_extended_map\<close>

text \<open>
  \<open>ContainerConfiguration\<close> and its \<open>merge_from_obj\<close> are defined outside the modelled
  sources, so \<open>get_extended\<close> takes them as parameters: \<open>new_config\<close> is the value of
  \<open>ContainerConfiguration()\<close> and \<open>merge acc obj\<close> the accumulator after
  \<open>acc.merge_from_obj(obj)\<close>. A configuration object is truthy, so \<open>not ext_cfg_base\<close>
  holds for a missing name only.

  The function calls itself for every parent and has no guard against a cycle of \<open>extends\<close>;
  what ends such a recursion is the interpreter, which raises RecursionError once the call
  depth passes its recursion limit. \<open>depth\<close> is the number of calls the interpreter still
  allows, this one included.
\<close>

fun extend_loop ::
  "(container_configuration \<Rightarrow> container_configuration \<Rightarrow> container_configuration) \<Rightarrow>
   (container_configuration \<Rightarrow> error + container_configuration) \<Rightarrow> container_map \<Rightarrow>
   container_configuration \<Rightarrow> string list \<Rightarrow> error + container_configuration" where
  "extend_loop merge rec self extended_config [] = Inr extended_config"
| "extend_loop merge rec self extended_config (ext_name # rest) =
     (case map_of (containers self) ext_name of
        None \<Rightarrow> Inl (KeyError [ext_name])
      | Some ext_cfg_base \<Rightarrow>
          (case rec ext_cfg_base of
             Inl e \<Rightarrow> Inl e
           | Inr ext_cfg \<Rightarrow> extend_loop merge rec self (merge extended_config ext_cfg) rest))"

primrec get_extended ::
  "nat \<Rightarrow> (container_configuration \<Rightarrow> container_configuration \<Rightarrow> container_configuration) \<Rightarrow>
   container_configuration \<Rightarrow> container_map \<Rightarrow> container_configuration \<Rightarrow>
   error + container_configuration" where
  "get_extended 0 merge new_config self config = Inl RecursionError"
| "get_extended (Suc depth) merge new_config self config =
     (if extends config = [] \<or> extended self then Inr config
      else
        (case extend_loop merge (get_extended depth merge new_config self) self new_config
                (extends config) of
           Inl e \<Rightarrow> Inl e
         | Inr extended_config \<Rightarrow> Inr (merge extended_config config)))"

text \<open>
  \<open>self.__class__(self.name)\<close>: a map with the defaults its properties declare.
\<close>

definition new_ContainerMap :: "string \<Rightarrow> container_map" where
  "new_ContainerMap n =
     \<lparr>name = n, extended = False, containers = [], networks = [], repository = None,
      host = [], host_root = None, volumes = [], map_clients = [], groups = [],
      default_domain = None, set_hostname = True, use_attached_parent_name = False,
      default_tag = ''latest''\<rparr>"

text \<open>
  Modelled from the spec: \<open>ConfigurationObject.update_from_obj\<close>, which
  \<open>ContainerMap.update_from_obj\<close> calls last, and \<open>NetworkConfiguration.update_from_obj\<close> are
  defined outside the modelled sources. The extended map is a copy of the map, so the call
  with \<open>copy=True\<close> gives \<open>self\<close> every configured property of \<open>obj\<close>, and each network of \<open>obj\<close>
  is stored under its name. With \<open>update_containers=False\<close>, the only way the function is
  called, the containers of \<open>self\<close> are left alone.
\<close>

definition update_from_obj :: "container_map \<Rightarrow> container_map \<Rightarrow> container_map" where
  "update_from_obj self obj =
     self\<lparr>host := host obj, host_root := host_root obj,
          networks := fold (\<lambda>(key, v) nws. set_item nws key v) (networks obj) (networks self),
          repository := repository obj, volumes := volumes obj, map_clients := map_clients obj,
          groups := groups obj, default_domain := default_domain obj,
          set_hostname := set_hostname obj,
          use_attached_parent_name := use_attached_parent_name obj,
          default_tag := default_tag obj\<rparr>"

text \<open>The loop of \<open>get_extended_map\<close> over the non-abstract configurations.\<close>

fun extend_items ::
  "(container_configuration \<Rightarrow> error + container_configuration) \<Rightarrow> container_map \<Rightarrow>
   (string \<times> container_configuration) list \<Rightarrow> error + container_map" where
  "extend_items ext map_copy [] = Inr map_copy"
| "extend_items ext map_copy ((c_name, c_config) # rest) =
     (case ext c_config of
        Inl e \<Rightarrow> Inl e
      | Inr c \<Rightarrow>
          extend_items ext (map_copy\<lparr>containers := set_item (containers map_copy) c_name c\<rparr>)
            rest)"

definition get_extended_map ::
  "nat \<Rightarrow> (container_configuration \<Rightarrow> container_configuration \<Rightarrow> container_configuration) \<Rightarrow>
   container_configuration \<Rightarrow> container_map \<Rightarrow> error + container_map" where
  "get_extended_map depth merge new_config self =
     (let map_copy = update_from_obj (new_ContainerMap (name self)) self in
      case extend_items (get_extended depth merge new_config self) map_copy (iter_map self) of
        Inl e \<Rightarrow> Inl e
      | Inr map_copy' \<Rightarrow> Inr (map_copy'\<lparr>extended := True\<rparr>))"

text \<open>
  The \<open>extends\<close> relation of a map between configuration objects: \<open>c\<close> names a parent that the
  map resolves to \<open>c'\<close>. A unit is on a cycle when it reaches itself.
\<close>

definition extends_rel :: "container_map \<Rightarrow> (container_configuration \<times> container_configuration) set" where
  "extends_rel self =
     {(c, c'). \<exists>ext_name \<in> set (extends c). map_of (containers self) ext_name = Some c'}"

text \<open>
  Running one fallible step after another: an exception of the first is the result.
\<close>

definition and_then :: "error + 'a \<Rightarrow> ('a \<Rightarrow> error + 'b) \<Rightarrow> error + 'b" where
  "and_then r f = (case r of Inl e \<Rightarrow> Inl e | Inr x \<Rightarrow> f x)"

text \<open>
  Modelled from the spec: a \<open>merge_from_obj\<close> and a fresh configuration as the extension
  resolver describes them (the later object overrides scalar fields and extends list fields),
  for evaluating \<open>get_extended\<close> on concrete maps.
\<close>

definition empty_config :: container_configuration where
  "empty_config =
     \<lparr>extends = [], abstract = False, instances = [], shares = [], binds = [], uses = [],
      attaches = [], links = [], network = NetworkOther None, clients = [],
      persistent = False\<rparr>"

definition example_merge ::
  "container_configuration \<Rightarrow> container_configuration \<Rightarrow> container_configuration" where
  "example_merge acc obj =
     \<lparr>extends = extends acc @ extends obj, abstract = abstract obj,
      instances = instances acc @ instances obj, shares = shares acc @ shares obj,
      binds = binds acc @ binds obj, uses = uses acc @ uses obj,
      attaches = attaches acc @ attaches obj, links = links acc @ links obj,
      network = network obj, clients = clients acc @ clients obj,
      persistent = persistent obj\<rparr>"

text \<open>Maps used for evaluation: a two-unit cycle, and a unit that names a missing parent
  before itself.\<close>

definition cycle_map :: container_map where
  "cycle_map =
     (new_ContainerMap ''m'')
       \<lparr>containers := [(''a'', empty_config\<lparr>extends := [''b'']\<rparr>),
                       (''b'', empty_config\<lparr>extends := [''a'']\<rparr>)]\<rparr>"

definition missing_parent_map :: container_map where
  "missing_parent_map =
     (new_ContainerMap ''m'')
       \<lparr>containers := [(''a'', empty_config\<lparr>extends := [''missing'', ''a'']\<rparr>)]\<rparr>"


text \<open>
  The exceptions \<open>get_extended\<close> can raise: RecursionError, or the KeyError of a parent name
  that the map does not hold.
\<close>

definition ext_error :: "container_map \<Rightarrow> error \<Rightarrow> bool" where
  "ext_error self e = (e = RecursionError \<or> (\<exists>n. e = KeyError [n] \<and> map_of (containers self) n = None))"

subsection \<open>group_instances and expand_instances\<close>

text \<open>
  A configuration id is a tuple whose first two items are the map and the configuration
  name (\<open>get_map_config = itemgetter(0, 1)\<close>) and whose third item is one instance name or
  \<open>None\<close>, or a tuple of them.
\<close>

definition get_map_config :: "string \<times> string \<times> 'i \<Rightarrow> string \<times> string" where
  "get_map_config di = (fst di, fst (snd di))"

text \<open>\<open>_get_single_instances\<close>.\<close>

definition get_single_instances :: "(string \<times> string \<times> 'i) list \<Rightarrow> 'i list" where
  "get_single_instances group_items = map (\<lambda>di. snd (snd di)) group_items"

text \<open>
  \<open>_get_nested_instances\<close> keeps \<open>ni\<close> when \<open>ni not in instance_set or instance_add(ni)\<close>.
  The second operand is evaluated only when \<open>ni\<close> is in the set already; it then adds \<open>ni\<close>
  and is \<open>None\<close>, which drops the item. An empty (or \<open>None\<close>) third item stands for \<open>(None,)\<close>.
\<close>

fun nested_filter :: "'a list \<Rightarrow> 'a list \<Rightarrow> 'a list" where
  "nested_filter instance_set [] = []"
| "nested_filter instance_set (ni # rest) =
     (if ni \<notin> set instance_set then ni # nested_filter instance_set rest
      else nested_filter (ni # instance_set) rest)"

definition get_nested_instances ::
  "(string \<times> string \<times> string option list) list \<Rightarrow> string option list" where
  "get_nested_instances group_items =
     nested_filter []
       (concat (map (\<lambda>di. if snd (snd di) = [] then [None] else snd (snd di)) group_items))"

text \<open>\<open>itertools.groupby\<close>: the runs of consecutive items with equal keys.\<close>

function groupby :: "('a \<Rightarrow> 'k) \<Rightarrow> 'a list \<Rightarrow> ('k \<times> 'a list) list" where
  "groupby key [] = []"
| "groupby key (x # xs) =
     (key x, x # takeWhile (\<lambda>y. key y = key x) xs)
       # groupby key (dropWhile (\<lambda>y. key y = key x) xs)"
  by pat_completeness auto
termination
  by (relation "measure (\<lambda>(key, xs). length xs)")
     (auto simp: length_dropWhile_le less_Suc_eq_le)

text \<open>\<open>c_map = ext_map or ext_maps[map_name]\<close>; a map object is truthy.\<close>

definition c_map_of ::
  "container_map option \<Rightarrow> (string \<times> container_map) list \<Rightarrow> string \<Rightarrow> error + container_map" where
  "c_map_of ext_map ext_maps m_name =
     (case ext_map of
        Some m \<Rightarrow> Inr m
      | None \<Rightarrow>
          (case map_of ext_maps m_name of
             None \<Rightarrow> Inl (KeyError [m_name])
           | Some m \<Rightarrow> Inr m))"

text \<open>Consuming a generator: the items it yields, or the first exception.\<close>

fun collect :: "('a \<Rightarrow> error + 'b) \<Rightarrow> 'a list \<Rightarrow> error + 'b list" where
  "collect f [] = Inr []"
| "collect f (x # xs) =
     (case f x of
        Inl e \<Rightarrow> Inl e
      | Inr y \<Rightarrow> (case collect f xs of Inl e \<Rightarrow> Inl e | Inr ys \<Rightarrow> Inr (y # ys)))"

text \<open>
  The body of the loop of \<open>group_instances\<close> for one group. \<open>single_instances\<close> selects
  \<open>_get_single_instances\<close> or \<open>_get_nested_instances\<close>; the two read third items of different
  types, so the model takes the selected function as \<open>get_instances\<close>.
\<close>

definition group_item ::
  "((string \<times> string \<times> 'i) list \<Rightarrow> string option list) \<Rightarrow> container_map option \<Rightarrow>
   (string \<times> container_map) list \<Rightarrow> (string \<times> string) \<times> (string \<times> string \<times> 'i) list \<Rightarrow>
   error + (string \<times> string \<times> string option list)" where
  "group_item get_instances ext_map ext_maps grp =
     (let m_name = fst (fst grp); c_name = snd (fst grp);
          insts = get_instances (snd grp)
      in case c_map_of ext_map ext_maps m_name of
           Inl e \<Rightarrow> Inl e
         | Inr c_map \<Rightarrow>
             (case get_existing c_map c_name of
                None \<Rightarrow> Inl (KeyError [m_name, c_name])
              | Some config \<Rightarrow>
                  if instances config \<noteq> []
                     \<and> (None \<in> set insts \<or> length insts = length (instances config))
                  then Inr (m_name, c_name, [None])
                  else Inr (m_name, c_name, insts)))"

definition group_instances ::
  "((string \<times> string \<times> 'i) list \<Rightarrow> string option list) \<Rightarrow> container_map option \<Rightarrow>
   (string \<times> container_map) list \<Rightarrow> (string \<times> string \<times> 'i) list \<Rightarrow>
   error + (string \<times> string \<times> string option list) list" where
  "group_instances get_instances ext_map ext_maps config_ids =
     (if ext_map = None \<and> ext_maps = []
      then Inl (ValueError ''Either a single ContainerMap or a dictionary of them must be provided.'')
      else collect (group_item get_instances ext_map ext_maps)
             (groupby get_map_config (sort_key get_map_config config_ids)))"

text \<open>The body of the loop of \<open>expand_instances\<close> for one group, and the function.\<close>

definition expand_item ::
  "((string \<times> string \<times> 'i) list \<Rightarrow> string option list) \<Rightarrow> container_map option \<Rightarrow>
   (string \<times> container_map) list \<Rightarrow> (string \<times> string) \<times> (string \<times> string \<times> 'i) list \<Rightarrow>
   error + (string \<times> string \<times> string option) list" where
  "expand_item get_instances ext_map ext_maps grp =
     (let m_name = fst (fst grp); c_name = snd (fst grp);
          insts = get_instances (snd grp)
      in case c_map_of ext_map ext_maps m_name of
           Inl e \<Rightarrow> Inl e
         | Inr c_map \<Rightarrow>
             (case get_existing c_map c_name of
                None \<Rightarrow> Inl (KeyError [m_name, c_name])
              | Some config \<Rightarrow>
                  if instances config \<noteq> [] \<and> None \<in> set insts
                  then Inr (map (\<lambda>i. (m_name, c_name, Some i)) (instances config))
                  else Inr (map (\<lambda>i. (m_name, c_name, i)) insts)))"

definition expand_instances ::
  "((string \<times> string \<times> 'i) list \<Rightarrow> string option list) \<Rightarrow> container_map option \<Rightarrow>
   (string \<times> container_map) list \<Rightarrow> (string \<times> string \<times> 'i) list \<Rightarrow>
   error + (string \<times> string \<times> string option) list" where
  "expand_instances get_instances ext_map ext_maps config_ids =
     (if ext_map = None \<and> ext_maps = []
      then Inl (ValueError ''Either a single ContainerMap or a dictionary of them must be provided.'')
      else
        (case collect (expand_item get_instances ext_map ext_maps)
                (groupby get_map_config (sort_key get_map_config config_ids)) of
           Inl e \<Rightarrow> Inl e
         | Inr yielded \<Rightarrow> Inr (concat yielded)))"

text \<open>
  The ids of one unit within a batch, in the order of the batch, and the configuration that
  \<open>group_instances\<close> and \<open>expand_instances\<close> look up for a unit (\<open>None\<close> when the map or the
  configuration is missing, where they raise KeyError).
\<close>

definition unit_ids :: "string \<times> string \<Rightarrow> (string \<times> string \<times> 'i) list \<Rightarrow> (string \<times> string \<times> 'i) list" where
  "unit_ids k config_ids = filter (\<lambda>di. get_map_config di = k) config_ids"

definition unit_config ::
  "container_map option \<Rightarrow> (string \<times> container_map) list \<Rightarrow> string \<times> string \<Rightarrow>
   container_configuration option" where
  "unit_config ext_map ext_maps k =
     (case c_map_of ext_map ext_maps (fst k) of
        Inl e \<Rightarrow> None
      | Inr c_map \<Rightarrow> get_existing c_map (snd k))"

text \<open>
  Maps used for evaluation: the unit \<open>app\<close> with the instances \<open>1\<close> and \<open>2\<close> beside the unit \<open>db\<close>
  with the instances \<open>a\<close> and \<open>b\<close>; and a unit whose declaration names the instance \<open>1\<close> twice.
\<close>

definition app_map :: container_map where
  "app_map =
     (new_ContainerMap ''m'')
       \<lparr>containers := [(''app'', empty_config\<lparr>instances := [''1'', ''2'']\<rparr>),
                       (''db'', empty_config\<lparr>instances := [''a'', ''b'']\<rparr>)],
        extended := True\<rparr>"

definition repeated_map :: container_map where
  "repeated_map =
     (new_ContainerMap ''m'')
       \<lparr>containers := [(''app'', empty_config\<lparr>instances := [''1'', ''1'']\<rparr>)],
        extended := True\<rparr>"

subsection \<open>dependency_items\<close>

text \<open>
  \<open>v.partition('.')\<close>: the text before the first dot and the text after it (empty when there is
  no dot); the separator itself is not used. \<open>i or None\<close> turns the empty string into \<open>None\<close>.
\<close>

definition partition_dot :: "string \<Rightarrow> string \<times> string" where
  "partition_dot v =
     (takeWhile (\<lambda>ch. ch \<noteq> CHR ''.'') v, drop 1 (dropWhile (\<lambda>ch. ch \<noteq> CHR ''.'') v))"

definition or_None :: "string \<Rightarrow> string option" where
  "or_None i = (if i = [] then None else Some i)"

text \<open>
  The items of the dictionary comprehension \<open>attached\<close>, in the order they are stored; a later
  item of the same alias replaces an earlier one, so a lookup reads the last.
\<close>

definition attached_items :: "container_map \<Rightarrow> (string \<times> string) list" where
  "attached_items ext_map =
     concat (map (\<lambda>(c_name, c_config). map (\<lambda>a. (a, c_name)) (attaches c_config))
               (iter_map ext_map))"

definition get_used_item_np ::
  "string \<Rightarrow> (string \<times> string) list \<Rightarrow> string \<times> bool \<Rightarrow> string \<times> string \<times> string option" where
  "get_used_item_np self_name attached u =
     (let c = fst (partition_dot (fst u)); i = snd (partition_dot (fst u))
      in case map_of (rev attached) c of
           Some a \<Rightarrow> if a \<noteq> [] then (self_name, a, None) else (self_name, c, or_None i)
         | None \<Rightarrow> (self_name, c, or_None i))"

text \<open>
  \<open>_get_used_item_ap\<close> reads \<open>a.attaches\<close> of \<open>ext_map.get_existing(c)\<close>, which is \<open>None\<close> for an
  unknown name: AttributeError.
\<close>

definition get_used_item_ap ::
  "string \<Rightarrow> container_map \<Rightarrow> string \<times> bool \<Rightarrow> error + (string \<times> string \<times> string option)" where
  "get_used_item_ap self_name ext_map u =
     (let c = fst (partition_dot (fst u)); i = snd (partition_dot (fst u))
      in case get_existing ext_map c of
           None \<Rightarrow> Inl AttributeError
         | Some a \<Rightarrow>
             if i \<in> set (attaches a) then Inr (self_name, c, None)
             else Inr (self_name, c, or_None i))"

definition get_linked_item ::
  "string \<Rightarrow> string \<times> string option \<Rightarrow> string \<times> string \<times> string option" where
  "get_linked_item self_name l =
     (let c = fst (partition_dot (fst l)); i = snd (partition_dot (fst l))
      in if i \<noteq> [] then (self_name, c, Some i) else (self_name, c, None))"

text \<open>
  \<open>_get_dep_set\<close>. The result is a Python set; the model keeps it as a list without
  repetitions, which fixes one of the orders in which the set may be iterated.
\<close>

definition get_dep_set ::
  "container_map \<Rightarrow> container_map \<Rightarrow> container_configuration \<Rightarrow>
   error + (string \<times> string \<times> string option) list" where
  "get_dep_set self ext_map config =
     (case (if \<not> use_attached_parent_name self
            then Inr (map (get_used_item_np (name self) (attached_items ext_map)) (uses config))
            else collect (get_used_item_ap (name self) ext_map) (uses config)) of
        Inl e \<Rightarrow> Inl e
      | Inr used \<Rightarrow>
          Inr (remdups
                 (used @ map (get_linked_item (name self)) (links config)
                  @ (case network config of
                       NetworkTuple u i \<Rightarrow> [(name self, u, i)]
                     | NetworkOther _ \<Rightarrow> []))))"

text \<open>
  What \<open>dependency_items\<close> yields: in reverse mode an address with the wildcard tuple and a
  set of \<open>(map, unit)\<close> pairs, otherwise a \<open>(map, unit)\<close> pair and a set of ids.
\<close>

datatype dependency_item =
    ReverseItem "string \<times> string \<times> string option list" "(string \<times> string) set"
  | ForwardItem "string \<times> string" "(string \<times> string \<times> string option list) set"

definition dependency_entry ::
  "container_map \<Rightarrow> container_map \<Rightarrow> bool \<Rightarrow> string \<times> container_configuration \<Rightarrow>
   error + dependency_item" where
  "dependency_entry self ext_map reverse item =
     (case get_dep_set self ext_map (snd item) of
        Inl e \<Rightarrow> Inl e
      | Inr dep_set \<Rightarrow>
          if reverse
          then Inr (ReverseItem (name self, fst item, [None]) (set (map get_map_config dep_set)))
          else
            (case group_instances get_single_instances (Some ext_map) [] dep_set of
               Inl (KeyError [m, c]) \<Rightarrow>
                 Inl (KeyError [''Dependency '' @ m @ ''.'' @ c @ '' for '' @ name self @ ''.''
                                @ fst item @ '' not found.''])
             | Inl e \<Rightarrow> Inl e
             | Inr instance_list \<Rightarrow> Inr (ForwardItem (name self, fst item) (set instance_list))))"

definition dependency_items ::
  "nat \<Rightarrow> (container_configuration \<Rightarrow> container_configuration \<Rightarrow> container_configuration) \<Rightarrow>
   container_configuration \<Rightarrow> container_map \<Rightarrow> bool \<Rightarrow> error + dependency_item list" where
  "dependency_items depth merge new_config self reverse =
     (case (if extended self then Inr self
            else get_extended_map depth merge new_config self) of
        Inl e \<Rightarrow> Inl e
      | Inr ext_map \<Rightarrow> collect (dependency_entry self ext_map reverse) (iter_map ext_map))"

text \<open>A map in which \<open>web\<close> uses the volumes of \<open>data\<close>.\<close>

definition web_data_map :: container_map where
  "web_data_map =
     (new_ContainerMap ''m'')
       \<lparr>containers := [(''web'', empty_config\<lparr>uses := [(''data'', False)]\<rparr>),
                       (''data'', empty_config\<lparr>shares := [''/var/lib/data'']\<rparr>)]\<rparr>"

subsection \<open>check_integrity\<close>

definition get_instance_names :: "string \<Rightarrow> string list \<Rightarrow> string list" where
  "get_instance_names c_name insts =
     (if insts \<noteq> [] then map (\<lambda>instance. c_name @ ''.'' @ instance) insts else [c_name])"

text \<open>
  The tuple \<open>_get_container_items\<close> returns. An item of \<open>ci_attaches\<close> is the pair
  \<open>(c_name, a)\<close> when \<open>use_attached_parent_name\<close> is set and the alias alone otherwise; the
  model writes the missing parent as \<open>None\<close>.
\<close>

record container_items =
  ci_instance_names :: "string list"
  ci_group_ref_names :: "string list"
  ci_uses :: "string list"
  ci_attaches :: "(string option \<times> string) list"
  ci_shared :: "string list"
  ci_bind :: "string list"
  ci_link :: "string list"
  ci_network :: "string option"

definition get_container_items ::
  "container_map \<Rightarrow> string \<times> container_configuration \<Rightarrow> container_items" where
  "get_container_items self item =
     (let c_name = fst item; c_config = snd item;
          instance_names = get_instance_names c_name (instances c_config)
      in \<lparr>ci_instance_names = instance_names,
          ci_group_ref_names =
            (if instances c_config \<noteq> [] then instance_names @ [c_name] else instance_names),
          ci_uses = map fst (uses c_config),
          ci_attaches =
            (if use_attached_parent_name self
             then map (\<lambda>a. (Some c_name, a)) (attaches c_config)
             else map (\<lambda>a. (None, a)) (attaches c_config)),
          ci_shared =
            (if shares c_config \<noteq> [] \<or> binds c_config \<noteq> [] \<or> uses c_config \<noteq> []
             then instance_names else []),
          ci_bind =
            concat (map (\<lambda>b. case fst b of VolumeAlias v \<Rightarrow> [v] | VolumeTuple _ _ \<Rightarrow> [])
                      (binds c_config)),
          ci_link = map fst (links c_config),
          ci_network =
            (case network c_config of
               NetworkTuple u i \<Rightarrow>
                 (case i of
                    Some inst \<Rightarrow> if inst \<noteq> [] then Some (u @ ''.'' @ inst) else Some u
                  | None \<Rightarrow> Some u)
             | NetworkOther _ \<Rightarrow> None)\<rparr>)"

text \<open>The names derived from the per-unit items, as \<open>check_integrity\<close> computes them.\<close>

definition all_attached_names :: "container_items list \<Rightarrow> string list" where
  "all_attached_names items =
     map (\<lambda>pa. case fst pa of Some c_name \<Rightarrow> c_name @ ''.'' @ snd pa | None \<Rightarrow> snd pa)
       (concat (map ci_attaches items))"

definition volume_shared :: "container_items list \<Rightarrow> string list" where
  "volume_shared items = concat (map ci_shared items) @ all_attached_names items"

definition ambiguous_names :: "container_map \<Rightarrow> container_items list \<Rightarrow> string set" where
  "ambiguous_names self items =
     set (map fst (groups self)) \<inter> set (concat (map ci_group_ref_names items))"

definition missing_refs :: "container_map \<Rightarrow> container_items list \<Rightarrow> string set" where
  "missing_refs self items =
     set (concat (map snd (groups self))) - set (concat (map ci_group_ref_names items))"

definition duplicated :: "container_items list \<Rightarrow> string set" where
  "duplicated items =
     {n \<in> set (volume_shared items). 1 < count_list (volume_shared items) n}"

definition missing_shares :: "container_items list \<Rightarrow> string set" where
  "missing_shares items = set (concat (map ci_uses items)) - set (volume_shared items)"

definition missing_binds :: "container_map \<Rightarrow> container_items list \<Rightarrow> string set" where
  "missing_binds self items = set (concat (map ci_bind items)) - set (map fst (host self))"

definition missing_names :: "container_map \<Rightarrow> container_items list \<Rightarrow> string set" where
  "missing_names self items =
     (set (concat (map ci_bind items)) \<union> set (map snd (concat (map ci_attaches items))))
       - set (map fst (volumes self))"

definition missing_links :: "container_items list \<Rightarrow> string set" where
  "missing_links items =
     set (concat (map ci_link items)) - set (concat (map ci_instance_names items))"

definition missing_networks :: "container_items list \<Rightarrow> string set" where
  "missing_networks items =
     {n. Some n \<in> set (map ci_network items) \<and> n \<noteq> []}
       - set (concat (map ci_instance_names items))"

text \<open>
  \<open>check_integrity\<close>. Unpacking \<open>zip(*[])\<close> into eight names raises ValueError, so a map
  without a non-abstract configuration does not reach the checks. The rules are tried in
  order and the first that fails raises; \<open>Inr ()\<close> is a passed check.
\<close>

definition check_integrity ::
  "nat \<Rightarrow> (container_configuration \<Rightarrow> container_configuration \<Rightarrow> container_configuration) \<Rightarrow>
   container_configuration \<Rightarrow> container_map \<Rightarrow> bool \<Rightarrow> error + unit" where
  "check_integrity depth merge new_config self check_duplicates =
     (case get_extended_map depth merge new_config self of
        Inl e \<Rightarrow> Inl e
      | Inr ext_map \<Rightarrow>
          (let items = map (get_container_items self) (iter_map ext_map) in
           if items = [] then Inl (ValueError ''not enough values to unpack'')
           else if ambiguous_names self items \<noteq> {}
             then Inl (MapIntegrityError AmbiguousNames (ambiguous_names self items))
           else if missing_refs self items \<noteq> {}
             then Inl (MapIntegrityError MissingGroupRefs (missing_refs self items))
           else if check_duplicates \<and> duplicated items \<noteq> {}
             then Inl (MapIntegrityError DuplicatedVolumes (duplicated items))
           else if missing_shares items \<noteq> {}
             then Inl (MapIntegrityError MissingShares (missing_shares items))
           else if missing_binds self items \<noteq> {}
             then Inl (MapIntegrityError MissingBinds (missing_binds self items))
           else if missing_names self items \<noteq> {}
             then Inl (MapIntegrityError MissingVolumeNames (missing_names self items))
           else if missing_links items \<noteq> {}
             then Inl (MapIntegrityError MissingLinks (missing_links items))
           else if missing_networks items \<noteq> {}
             then Inl (MapIntegrityError MissingNetworks (missing_networks items))
           else Inr ()))"

text \<open>
  The scenario maps: \<open>web\<close> uses the attached volume \<open>data-vol\<close> that \<open>data\<close> attaches; the same
  without the \<open>attaches\<close> declaration; and the latter with a group that is named like the
  unit \<open>web\<close>.
\<close>

definition web_uses_attached :: container_map where
  "web_uses_attached =
     (new_ContainerMap ''m'')
       \<lparr>containers := [(''web'', empty_config\<lparr>uses := [(''data-vol'', False)]\<rparr>),
                       (''data'', empty_config\<lparr>attaches := [''data-vol'']\<rparr>)],
        volumes := [(''data-vol'', ''/mnt/data'')]\<rparr>"

definition web_uses_unattached :: container_map where
  "web_uses_unattached =
     (new_ContainerMap ''m'')
       \<lparr>containers := [(''web'', empty_config\<lparr>uses := [(''data-vol'', False)]\<rparr>),
                       (''data'', empty_config)],
        volumes := [(''data-vol'', ''/mnt/data'')]\<rparr>"

definition web_group_collision :: container_map where
  "web_group_collision =
     (new_ContainerMap ''m'')
       \<lparr>extended := True,
        containers := [(''web'', empty_config\<lparr>uses := [(''data-vol'', False)]\<rparr>),
                       (''data'', empty_config)],
        volumes := [(''data-vol'', ''/mnt/data'')],
        groups := [(''web'', [''web''])]\<rparr>"

section \<open>policy/base.py and state/base.py: the clients of a configuration\<close>

text \<open>
  A client configuration is a dictionary of settings and \<open>get_client()\<close> builds the client
  object from it; both classes are defined outside the modelled sources and are only passed
  on here. The policy holds the extended maps (\<open>_maps\<close>) and the client configurations
  (\<open>_clients\<close>) by name.
\<close>

type_synonym client_configuration = pydict

datatype client = Client client_configuration

record base_policy =
  policy_maps :: "(string \<times> container_map) list"
  policy_clients :: "(string \<times> client_configuration) list"

text \<open>
  \<open>get_clients\<close> reads nothing but the attribute \<open>clients\<close> of its two arguments, which a
  container configuration and a map both have. The model passes either kind of object.
\<close>

datatype config_object = MapObject container_map | ContainerObject container_configuration

fun clients_attr :: "config_object \<Rightarrow> string list" where
  "clients_attr (MapObject m) = map_clients m"
| "clients_attr (ContainerObject c) = clients c"

definition get_default_client_name :: string where
  "get_default_client_name = ''__default__''"

text \<open>The inner function \<open>_get_client\<close>: \<open>self._clients[client_name]\<close> raises KeyError.\<close>

definition get_client_item ::
  "base_policy \<Rightarrow> string \<Rightarrow> error + (string \<times> client \<times> client_configuration)" where
  "get_client_item self client_name =
     (case map_of (policy_clients self) client_name of
        None \<Rightarrow> Inl (KeyError [client_name])
      | Some client_config \<Rightarrow> Inr (client_name, Client client_config, client_config))"

text \<open>\<open>get_clients(self, c_config, c_map)\<close>.\<close>

definition get_clients ::
  "base_policy \<Rightarrow> config_object \<Rightarrow> config_object \<Rightarrow>
   error + (string \<times> client \<times> client_configuration) list" where
  "get_clients self c_config c_map =
     (if clients_attr c_config \<noteq> [] then collect (get_client_item self) (clients_attr c_config)
      else if clients_attr c_map \<noteq> [] then collect (get_client_item self) (clients_attr c_map)
      else collect (get_client_item self) [get_default_client_name])"

text \<open>A state report, the tuple \<open>ConfigState\<close>.\<close>

record config_state =
  cs_client_name :: string
  cs_map_name :: string
  cs_config_type :: item_type
  cs_config_name :: string
  cs_instance_name :: "string option"
  cs_config_flags :: int
  cs_base_state :: base_state
  cs_state_flags :: int

text \<open>
  The loop \<open>for client_name, client_config in clients\<close> of \<open>generate_config_states\<close>. Every
  item of \<open>clients\<close> is one of the 3-tuples \<open>get_clients\<close> builds, and the loop header unpacks
  it into two names: the first item raises ValueError before the body runs, so the body
  (inspection and \<open>get_state\<close>) is never reached and no report is yielded.
\<close>

fun state_loop ::
  "(string \<times> client \<times> client_configuration) list \<Rightarrow> error + config_state list" where
  "state_loop [] = Inr []"
| "state_loop (item # rest) = Inl (ValueError ''too many values to unpack'')"

text \<open>
  \<open>generate_config_states\<close>, consumed to its end. The calls are written as in the source:
  \<open>get_clients(c_map, config)\<close> for a container or an attached volume, so the map is bound to
  the parameter \<open>c_config\<close> and the configuration to \<open>c_map\<close>, and \<open>get_clients(c_map)\<close> for a
  network, which lacks a positional argument (TypeError). The configuration flags are
  computed before the loop and used in its body only.
\<close>

definition generate_config_states ::
  "base_policy \<Rightarrow> item_type \<Rightarrow> string \<Rightarrow> string \<Rightarrow> string option \<Rightarrow> bool \<Rightarrow>
   error + config_state list" where
  "generate_config_states self config_type m_name c_name instance is_dependency =
     (case map_of (policy_maps self) m_name of
        None \<Rightarrow> Inl (KeyError [m_name])
      | Some c_map \<Rightarrow>
          if config_type = ITEM_TYPE_CONTAINER then
            (case get_existing c_map c_name of
               None \<Rightarrow>
                 Inl (KeyError [''Container configuration '' @ [CHR 0x27] @ c_name @ [CHR 0x27]
                                @ '' not found on map '' @ [CHR 0x27] @ m_name @ [CHR 0x27] @ ''.''])
             | Some config \<Rightarrow>
                 (case get_clients self (MapObject c_map) (ContainerObject config) of
                    Inl e \<Rightarrow> Inl e
                  | Inr clnts \<Rightarrow> state_loop clnts))
          else if config_type = ITEM_TYPE_VOLUME then
            (case get_existing c_map c_name of
               None \<Rightarrow>
                 Inl (KeyError [''Container configuration '' @ [CHR 0x27] @ c_name @ [CHR 0x27]
                                @ '' not found on map '' @ [CHR 0x27] @ m_name @ [CHR 0x27] @ ''.''])
             | Some config \<Rightarrow>
                 (case get_clients self (MapObject c_map) (ContainerObject config) of
                    Inl e \<Rightarrow> Inl e
                  | Inr clnts \<Rightarrow> state_loop clnts))
          else if config_type = ITEM_TYPE_NETWORK then
            (case get_existing_network c_map c_name of
               None \<Rightarrow>
                 Inl (KeyError [''Network configuration '' @ [CHR 0x27] @ c_name @ [CHR 0x27]
                                @ '' not found on map '' @ [CHR 0x27] @ m_name @ [CHR 0x27] @ ''.''])
             | Some config \<Rightarrow> Inl TypeError)
          else Inl (ValueError ''Invalid configuration type.''))"

text \<open>
  A map with the client list \<open>[map-client]\<close> whose unit \<open>web\<close> has the client list
  \<open>[unit-client]\<close>, and a policy that knows both clients and the default one.
\<close>

definition web_clients_config :: container_configuration where
  "web_clients_config = empty_config\<lparr>clients := [''unit-client'']\<rparr>"

definition web_clients_map :: container_map where
  "web_clients_map =
     (new_ContainerMap ''m'')
       \<lparr>extended := True, containers := [(''web'', web_clients_config)],
        map_clients := [''map-client'']\<rparr>"

definition web_clients_policy :: base_policy where
  "web_clients_policy =
     \<lparr>policy_maps = [(''m'', web_clients_map)],
      policy_clients =
        [(''__default__'', [(''base_url'', PStr ''unix://var/run/docker.sock'')]),
         (''map-client'', [(''base_url'', PStr ''tcp://map-host:2375'')]),
         (''unit-client'', [(''base_url'', PStr ''tcp://unit-host:2375'')])]\<rparr>"

section \<open>Properties of update_kwargs\<close>

lemma dict_get_dict_set:
  "dict_get (dict_set d k v) k' = (if k' = k then Some v else dict_get d k')"
  by (induction d k v rule: dict_set.induct) (auto simp: dict_get_def)

lemma dict_set_not_Nil: "dict_set d k v \<noteq> []"
  by (cases d) (auto split: if_splits)

lemma dict_update_not_Nil: "d \<noteq> [] \<Longrightarrow> dict_update d u \<noteq> []"
  by (induction d u rule: dict_update.induct) (auto simp: dict_set_not_Nil)

text \<open>One entry changes at most its own key, and only to a truthy value.\<close>

lemma update_entry_other:
  "update_entry kwargs key u_item = Inr kwargs' \<Longrightarrow> k \<noteq> key \<Longrightarrow>
   dict_get kwargs' k = dict_get kwargs k"
  by (auto simp: update_entry_def Let_def dict_get_dict_set
           split: if_splits pyval.splits option.splits)

lemma update_entry_falsy:
  "\<not> truthy u_item \<Longrightarrow> update_entry kwargs key u_item = Inr kwargs"
  by (simp add: update_entry_def)

lemma update_entry_truthy:
  "update_entry kwargs key u_item = Inr kwargs' \<Longrightarrow>
   dict_get kwargs' k = dict_get kwargs k \<or> (\<exists>v. dict_get kwargs' k = Some v \<and> truthy v)"
  by (auto simp: update_entry_def Let_def dict_get_dict_set dict_update_not_Nil
           split: if_splits pyval.splits option.splits)

lemma update_entry_keeps_keys:
  "update_entry kwargs key u_item = Inr kwargs' \<Longrightarrow> dict_get kwargs k \<noteq> None \<Longrightarrow>
   dict_get kwargs' k \<noteq> None"
  by (auto simp: update_entry_def Let_def dict_get_dict_set
           split: if_splits pyval.splits option.splits)

lemma update_items_falsy:
  "\<forall>v. (k, v) \<in> set u \<longrightarrow> \<not> truthy v \<Longrightarrow>
   dict_get (fst (update_items kwargs u)) k = dict_get kwargs k"
proof (induction kwargs u rule: update_items.induct)
  case (1 kwargs)
  show ?case by simp
next
  case (2 kwargs key u_item rest)
  show ?case
  proof (cases "update_entry kwargs key u_item")
    case (Inl e)
    then show ?thesis by simp
  next
    case (Inr kwargs')
    have rest: "\<forall>v. (k, v) \<in> set rest \<longrightarrow> \<not> truthy v"
      using "2.prems" by auto
    have step: "dict_get kwargs' k = dict_get kwargs k"
    proof (cases "k = key")
      case True
      with "2.prems" have "\<not> truthy u_item" by auto
      with Inr show ?thesis by (simp add: update_entry_falsy)
    next
      case False
      with Inr show ?thesis by (rule update_entry_other)
    qed
    from "2.IH" [OF Inr rest] step Inr show ?thesis by simp
  qed
qed

lemma update_items_keeps_keys:
  "dict_get kwargs k \<noteq> None \<Longrightarrow> dict_get (fst (update_items kwargs u)) k \<noteq> None"
proof (induction kwargs u rule: update_items.induct)
  case (1 kwargs)
  then show ?case by simp
next
  case (2 kwargs key u_item rest)
  show ?case
  proof (cases "update_entry kwargs key u_item")
    case (Inl e)
    with "2.prems" show ?thesis by simp
  next
    case (Inr kwargs')
    from Inr "2.prems" have "dict_get kwargs' k \<noteq> None"
      by (rule update_entry_keeps_keys)
    from "2.IH" [OF Inr this] Inr show ?thesis by simp
  qed
qed

lemma update_items_truthy:
  "dict_get (fst (update_items kwargs u)) k = dict_get kwargs k
   \<or> (\<exists>v. dict_get (fst (update_items kwargs u)) k = Some v \<and> truthy v)"
proof (induction kwargs u rule: update_items.induct)
  case (1 kwargs)
  show ?case by simp
next
  case (2 kwargs key u_item rest)
  show ?case
  proof (cases "update_entry kwargs key u_item")
    case (Inl e)
    then show ?thesis by simp
  next
    case (Inr kwargs')
    from update_entry_truthy [OF Inr, of k] "2.IH" [OF Inr] Inr
    show ?thesis by auto
  qed
qed

lemma update_kwargs_falsy:
  "\<forall>d v. Some d \<in> set updates \<longrightarrow> (k, v) \<in> set d \<longrightarrow> \<not> truthy v \<Longrightarrow>
   dict_get (fst (update_kwargs kwargs updates)) k = dict_get kwargs k"
proof (induction updates arbitrary: kwargs)
  case Nil
  show ?case by simp
next
  case (Cons update updates)
  have tl: "\<forall>d v. Some d \<in> set updates \<longrightarrow> (k, v) \<in> set d \<longrightarrow> \<not> truthy v"
    using Cons.prems by auto
  show ?case
  proof (cases update)
    case None
    with Cons.IH [OF tl] show ?thesis by simp
  next
    case (Some u)
    have hd: "\<forall>v. (k, v) \<in> set u \<longrightarrow> \<not> truthy v"
      using Cons.prems Some by auto
    obtain kwargs' eo where r: "update_items kwargs u = (kwargs', eo)"
      by (cases "update_items kwargs u")
    from update_items_falsy [OF hd, of kwargs] r
    have step: "dict_get kwargs' k = dict_get kwargs k" by simp
    from Cons.IH [OF tl, of kwargs'] Cons.IH [OF tl, of kwargs] step r Some
    show ?thesis by (cases eo) auto
  qed
qed

lemma update_kwargs_keeps_keys:
  "dict_get kwargs k \<noteq> None \<Longrightarrow> dict_get (fst (update_kwargs kwargs updates)) k \<noteq> None"
proof (induction updates arbitrary: kwargs)
  case Nil
  then show ?case by simp
next
  case (Cons update updates)
  show ?case
  proof (cases update)
    case None
    with Cons.IH [OF Cons.prems] show ?thesis by simp
  next
    case (Some u)
    obtain kwargs' eo where r: "update_items kwargs u = (kwargs', eo)"
      by (cases "update_items kwargs u")
    from update_items_keeps_keys [OF Cons.prems, of u] r
    have step: "dict_get kwargs' k \<noteq> None" by simp
    from Cons.IH [OF step] Cons.IH [OF Cons.prems] step r Some
    show ?thesis by (cases eo) auto
  qed
qed

lemma update_kwargs_truthy:
  "dict_get (fst (update_kwargs kwargs updates)) k = dict_get kwargs k
   \<or> (\<exists>v. dict_get (fst (update_kwargs kwargs updates)) k = Some v \<and> truthy v)"
proof (induction updates arbitrary: kwargs)
  case Nil
  show ?case by simp
next
  case (Cons update updates)
  show ?case
  proof (cases update)
    case None
    with Cons.IH [of kwargs] show ?thesis by simp
  next
    case (Some u)
    obtain kwargs' eo where r: "update_items kwargs u = (kwargs', eo)"
      by (cases "update_items kwargs u")
    from update_items_truthy [of kwargs u k] r
    have step: "dict_get kwargs' k = dict_get kwargs k
                \<or> (\<exists>v. dict_get kwargs' k = Some v \<and> truthy v)" by simp
    from Cons.IH [of kwargs'] Cons.IH [of kwargs] step r Some
    show ?thesis by (cases eo) auto
  qed
qed

text \<open>
  C10. In every call of \<open>update_kwargs\<close>, a key whose value is falsy in each update
  dictionary that holds it keeps the entry it had in the base \<open>kwargs\<close> (the falsy items
  are skipped); no key of \<open>kwargs\<close> is ever removed; and an entry that differs from the
  original one is truthy, so no value is overridden by a falsy one. This holds for the
  dictionary as the call leaves it, also when the call ends in an exception.
\<close>

theorem update_kwargs_skips_falsy:
  "((\<forall>d v. Some d \<in> set updates \<longrightarrow> (k, v) \<in> set d \<longrightarrow> \<not> truthy v) \<longrightarrow>
      dict_get (fst (update_kwargs kwargs updates)) k = dict_get kwargs k)
   \<and> (dict_get kwargs k \<noteq> None \<longrightarrow> dict_get (fst (update_kwargs kwargs updates)) k \<noteq> None)
   \<and> (dict_get (fst (update_kwargs kwargs updates)) k = dict_get kwargs k
        \<or> (\<exists>v. dict_get (fst (update_kwargs kwargs updates)) k = Some v \<and> truthy v))"
  using update_kwargs_falsy [of updates k kwargs] update_kwargs_keeps_keys [of kwargs k updates]
    update_kwargs_truthy [of kwargs updates k]
  by blast

text \<open>
  The name \<open>web\<close> survives two updates that carry an empty string and \<open>None\<close> for it.
\<close>

theorem update_kwargs_skips_falsy_witness:
  "dict_get [(''name'', PStr ''web''), (''ports'', PList [PInt 80])] ''name'' \<noteq> None
   \<and> dict_get (fst (update_kwargs [(''name'', PStr ''web''), (''ports'', PList [PInt 80])]
          [Some [(''name'', PStr []), (''ports'', PList [PInt 443])], None,
           Some [(''name'', PNone), (''user'', PInt 0)]])) ''name'' = Some (PStr ''web'')"
proof -
  have h: "\<forall>d v. Some d \<in> set [Some [(''name'', PStr []), (''ports'', PList [PInt 443])], None,
                           Some [(''name'', PNone), (''user'', PInt 0)]]
          \<longrightarrow> (''name'', v) \<in> set d \<longrightarrow> \<not> truthy v"
    by auto
  have g: "dict_get [(''name'', PStr ''web''), (''ports'', PList [PInt 80])] ''name'' \<noteq> None"
    by (simp add: dict_get_def)
  from update_kwargs_skips_falsy [of
      "[Some [(''name'', PStr []), (''ports'', PList [PInt 443])], None,
        Some [(''name'', PNone), (''user'', PInt 0)]]"
      "''name''" "[(''name'', PStr ''web''), (''ports'', PList [PInt 80])]"] h g
  show ?thesis by (simp add: dict_get_def)
qed

section \<open>Properties of get_state\<close>

lemma has_flag_or_self: "has_flag f (x OR f)"
  by (auto simp: has_flag_def bit_eq_iff bit_and_iff bit_or_iff)

lemma has_flag_self: "has_flag f f"
  by (simp add: has_flag_def)

lemma has_flag_or_iff:
  "g AND f = 0 \<Longrightarrow> has_flag f (x OR g) = has_flag f x"
  by (simp add: has_flag_def bit.conj_disj_distrib2)

lemma has_flag_disjoint: "f \<noteq> 0 \<Longrightarrow> g AND f = 0 \<Longrightarrow> \<not> has_flag f g"
  by (simp add: has_flag_def)

lemma has_flag_zero: "f \<noteq> 0 \<Longrightarrow> \<not> has_flag f 0"
  by (simp add: has_flag_def)

lemma example_independent: "independent_flags example_consts"
  by (simp add: independent_flags_def example_consts_def)

lemma get_state_not_found: "detail self = NOT_FOUND \<Longrightarrow> get_state K self = (STATE_ABSENT, 0)"
  by (simp add: get_state_def)

lemma get_state_running:
  "detail self = Detail s \<Longrightarrow> Running s \<Longrightarrow>
   get_state K self = (STATE_RUNNING, if forced self then 0 OR STATE_FLAG_OUTDATED K else 0)"
  by (simp add: get_state_def)

lemma get_state_present:
  "detail self = Detail s \<Longrightarrow> \<not> Running s \<Longrightarrow>
   get_state K self =
     (STATE_PRESENT,
      (let f1 = (if StartedAt s = INITIAL_START_TIME K then STATE_FLAG_INITIAL K
                 else if ExitCode s \<in> set (nonrecoverable_exit_codes (options self))
                   then STATE_FLAG_NONRECOVERABLE K else 0);
           f2 = (if Restarting s then f1 OR STATE_FLAG_RESTARTING K else f1)
       in if forced self then f2 OR STATE_FLAG_OUTDATED K else f2))"
  by (simp add: get_state_def Let_def)

text \<open>
  C3 (as the code classifies). With the flags an independent bit set: an object that was
  NOT_FOUND is ABSENT with no flag; a container reported running is RUNNING, with no flag
  unless a forced update applies; any other container is PRESENT, with INITIAL exactly when
  its start time is the never-started sentinel, NONRECOVERABLE exactly when its start time is
  not the sentinel and its exit code is in the configured set (the two are branches of one
  \<open>if\<close>/\<open>elif\<close>), and RESTARTING exactly when a restart is pending.
\<close>

theorem get_state_classification:
  assumes K: "independent_flags K"
  shows "(detail self = NOT_FOUND \<longrightarrow> get_state K self = (STATE_ABSENT, 0))
     \<and> (\<forall>s. detail self = Detail s \<and> Running s \<longrightarrow>
           fst (get_state K self) = STATE_RUNNING
           \<and> (\<not> forced self \<longrightarrow> snd (get_state K self) = 0))
     \<and> (\<forall>s. detail self = Detail s \<and> \<not> Running s \<longrightarrow>
           fst (get_state K self) = STATE_PRESENT
           \<and> (has_flag (STATE_FLAG_INITIAL K) (snd (get_state K self))
                \<longleftrightarrow> StartedAt s = INITIAL_START_TIME K)
           \<and> (has_flag (STATE_FLAG_NONRECOVERABLE K) (snd (get_state K self))
                \<longleftrightarrow> StartedAt s \<noteq> INITIAL_START_TIME K
                    \<and> ExitCode s \<in> set (nonrecoverable_exit_codes (options self)))
           \<and> (has_flag (STATE_FLAG_RESTARTING K) (snd (get_state K self))
                \<longleftrightarrow> Restarting s))"
proof (intro conjI allI impI)
  assume "detail self = NOT_FOUND"
  then show "get_state K self = (STATE_ABSENT, 0)" by (rule get_state_not_found)
next
  fix s assume "detail self = Detail s \<and> Running s"
  then show "fst (get_state K self) = STATE_RUNNING" by (simp add: get_state_running)
next
  fix s assume "detail self = Detail s \<and> Running s" and "\<not> forced self"
  then show "snd (get_state K self) = 0" by (simp add: get_state_running)
next
  fix s assume "detail self = Detail s \<and> \<not> Running s"
  then show "fst (get_state K self) = STATE_PRESENT" by (simp add: get_state_present)
next
  fix s assume d: "detail self = Detail s \<and> \<not> Running s"
  from K have z: "STATE_FLAG_INITIAL K \<noteq> 0"
    and r: "STATE_FLAG_RESTARTING K AND STATE_FLAG_INITIAL K = 0"
    and n: "STATE_FLAG_NONRECOVERABLE K AND STATE_FLAG_INITIAL K = 0"
    and u: "STATE_FLAG_OUTDATED K AND STATE_FLAG_INITIAL K = 0"
    by (simp_all add: independent_flags_def and.commute)
  from d z r n u
  show "has_flag (STATE_FLAG_INITIAL K) (snd (get_state K self))
          \<longleftrightarrow> StartedAt s = INITIAL_START_TIME K"
    by (simp add: get_state_present Let_def has_flag_or_iff has_flag_self has_flag_zero
          has_flag_disjoint)
next
  fix s assume d: "detail self = Detail s \<and> \<not> Running s"
  from K have z: "STATE_FLAG_NONRECOVERABLE K \<noteq> 0"
    and r: "STATE_FLAG_RESTARTING K AND STATE_FLAG_NONRECOVERABLE K = 0"
    and n: "STATE_FLAG_INITIAL K AND STATE_FLAG_NONRECOVERABLE K = 0"
    and u: "STATE_FLAG_OUTDATED K AND STATE_FLAG_NONRECOVERABLE K = 0"
    by (simp_all add: independent_flags_def and.commute)
  from d z r n u
  show "has_flag (STATE_FLAG_NONRECOVERABLE K) (snd (get_state K self))
          \<longleftrightarrow> StartedAt s \<noteq> INITIAL_START_TIME K
              \<and> ExitCode s \<in> set (nonrecoverable_exit_codes (options self))"
    by (simp add: get_state_present Let_def has_flag_or_iff has_flag_self has_flag_zero
          has_flag_disjoint)
next
  fix s assume d: "detail self = Detail s \<and> \<not> Running s"
  from K have z: "STATE_FLAG_RESTARTING K \<noteq> 0"
    and r: "STATE_FLAG_NONRECOVERABLE K AND STATE_FLAG_RESTARTING K = 0"
    and n: "STATE_FLAG_INITIAL K AND STATE_FLAG_RESTARTING K = 0"
    and u: "STATE_FLAG_OUTDATED K AND STATE_FLAG_RESTARTING K = 0"
    by (simp_all add: independent_flags_def and.commute)
  from d z r n u
  show "has_flag (STATE_FLAG_RESTARTING K) (snd (get_state K self)) \<longleftrightarrow> Restarting s"
    by (simp add: get_state_present Let_def has_flag_or_iff has_flag_or_self has_flag_zero
          has_flag_disjoint)
qed

text \<open>
  The scenario of \<open>web.1\<close>: never started it is PRESENT with INITIAL; once running it is
  RUNNING with no flags.
\<close>

theorem get_state_classification_witness:
  "independent_flags example_consts
   \<and> fst (get_state example_consts web1_initial) = STATE_PRESENT
   \<and> has_flag (STATE_FLAG_INITIAL example_consts) (snd (get_state example_consts web1_initial))
   \<and> \<not> has_flag (STATE_FLAG_NONRECOVERABLE example_consts)
          (snd (get_state example_consts web1_initial))
   \<and> get_state example_consts
        (web1_initial\<lparr>detail := Detail \<lparr>Running = True, StartedAt = ''2017-03-01T10:00:00Z'',
                                       ExitCode = 0, Restarting = False\<rparr>\<rparr>)
       = (STATE_RUNNING, 0)"
proof -
  have d: "detail web1_initial
             = Detail \<lparr>Running = False, StartedAt = ''0001-01-01T00:00:00Z'',
                       ExitCode = 0, Restarting = False\<rparr>"
    by (simp add: web1_initial_def)
  have nf: "\<not> forced (web1_initial\<lparr>detail := Detail \<lparr>Running = True,
              StartedAt = ''2017-03-01T10:00:00Z'', ExitCode = 0, Restarting = False\<rparr>\<rparr>)"
    by (simp add: forced_def web1_initial_def example_options_def)
  from get_state_classification [OF example_independent, of web1_initial] d
  have p: "fst (get_state example_consts web1_initial) = STATE_PRESENT
     \<and> has_flag (STATE_FLAG_INITIAL example_consts) (snd (get_state example_consts web1_initial))
     \<and> \<not> has_flag (STATE_FLAG_NONRECOVERABLE example_consts)
            (snd (get_state example_consts web1_initial))"
    by (simp add: example_consts_def)
  from get_state_classification [OF example_independent,
      of "web1_initial\<lparr>detail := Detail \<lparr>Running = True,
              StartedAt = ''2017-03-01T10:00:00Z'', ExitCode = 0, Restarting = False\<rparr>\<rparr>"] nf
  have r: "get_state example_consts
        (web1_initial\<lparr>detail := Detail \<lparr>Running = True, StartedAt = ''2017-03-01T10:00:00Z'',
                                       ExitCode = 0, Restarting = False\<rparr>\<rparr>)
       = (STATE_RUNNING, 0)"
    by (simp add: prod_eq_iff)
  from p r example_independent show ?thesis by simp
qed

text \<open>
  C3 as stated fails: a container that never started and whose exit code \<open>-1\<close> is in the
  non-recoverable set gets INITIAL only, not NONRECOVERABLE.
\<close>

theorem get_state_nonrecoverable_counterexample:
  "detail web1_failed = Detail \<lparr>Running = False, StartedAt = ''0001-01-01T00:00:00Z'',
                                 ExitCode = -1, Restarting = False\<rparr>
   \<and> (-1) \<in> set (nonrecoverable_exit_codes (options web1_failed))
   \<and> get_state example_consts web1_failed = (STATE_PRESENT, STATE_FLAG_INITIAL example_consts)
   \<and> \<not> has_flag (STATE_FLAG_NONRECOVERABLE example_consts)
          (snd (get_state example_consts web1_failed))"
  by (simp add: web1_failed_def example_options_def example_consts_def get_state_def
        forced_def has_flag_def)

text \<open>
  C4 as stated fails for ABSENT: an object that is not found returns before the forced update
  is looked at, so its flags are 0 although its address is in the selection.
\<close>

theorem get_state_outdated_absent_counterexample:
  "forced web1_absent_forced
   \<and> get_state example_consts web1_absent_forced = (STATE_ABSENT, 0)
   \<and> \<not> has_flag (STATE_FLAG_OUTDATED example_consts)
          (snd (get_state example_consts web1_absent_forced))"
  by (simp add: web1_absent_forced_def example_consts_def get_state_def forced_def has_flag_def)

text \<open>
  C4 (as the code sets the flag). A container that was found (base state PRESENT or RUNNING)
  and whose \<open>(container, map, config, instance)\<close> address is in the force-update selection
  has OUTDATED set; an object that was not found is ABSENT with flags 0 whatever the
  selection holds; and without a matching entry OUTDATED is not set.
\<close>

theorem get_state_outdated:
  "(forced self \<and> detail self \<noteq> NOT_FOUND \<longrightarrow>
      has_flag (STATE_FLAG_OUTDATED K) (snd (get_state K self))
      \<and> fst (get_state K self) \<in> {STATE_PRESENT, STATE_RUNNING})
   \<and> (detail self = NOT_FOUND \<longrightarrow> get_state K self = (STATE_ABSENT, 0))
   \<and> (independent_flags K \<and> \<not> forced self \<longrightarrow>
        \<not> has_flag (STATE_FLAG_OUTDATED K) (snd (get_state K self)))"
proof -
  have p1: "has_flag (STATE_FLAG_OUTDATED K) (snd (get_state K self))
      \<and> fst (get_state K self) \<in> {STATE_PRESENT, STATE_RUNNING}"
    if a: "forced self \<and> detail self \<noteq> NOT_FOUND"
  proof -
    from a obtain s where s: "detail self = Detail s" by (cases "detail self") auto
    show ?thesis
    proof (cases "Running s")
      case True
      with s a show ?thesis by (simp add: get_state_running has_flag_def)
    next
      case False
      with s a show ?thesis by (simp add: get_state_present Let_def has_flag_or_self)
    qed
  qed
  have p2: "get_state K self = (STATE_ABSENT, 0)" if "detail self = NOT_FOUND"
    using that by (rule get_state_not_found)
  have p3: "\<not> has_flag (STATE_FLAG_OUTDATED K) (snd (get_state K self))"
    if a: "independent_flags K \<and> \<not> forced self"
  proof -
    from a have z: "STATE_FLAG_OUTDATED K \<noteq> 0"
      and r: "STATE_FLAG_RESTARTING K AND STATE_FLAG_OUTDATED K = 0"
      and n: "STATE_FLAG_INITIAL K AND STATE_FLAG_OUTDATED K = 0"
      and u: "STATE_FLAG_NONRECOVERABLE K AND STATE_FLAG_OUTDATED K = 0"
      by (simp_all add: independent_flags_def and.commute)
    show ?thesis
    proof (cases "detail self")
      case NOT_FOUND
      with z show ?thesis by (simp add: get_state_not_found has_flag_zero)
    next
      case (Detail s)
      show ?thesis
      proof (cases "Running s")
        case True
        with Detail a z show ?thesis by (simp add: get_state_running has_flag_zero)
      next
        case False
        with Detail a z r n u show ?thesis
          by (simp add: get_state_present Let_def has_flag_or_iff has_flag_zero
                has_flag_disjoint)
      qed
    qed
  qed
  from p1 p2 p3 show ?thesis by blast
qed

text \<open>A running container under a forced update, and the two other cases.\<close>

theorem get_state_outdated_witness:
  "forced web1_running_forced
   \<and> detail web1_running_forced \<noteq> NOT_FOUND
   \<and> has_flag (STATE_FLAG_OUTDATED example_consts)
        (snd (get_state example_consts web1_running_forced))
   \<and> independent_flags example_consts
   \<and> \<not> forced web1_initial
   \<and> \<not> has_flag (STATE_FLAG_OUTDATED example_consts)
          (snd (get_state example_consts web1_initial))
   \<and> detail web1_absent_forced = NOT_FOUND
   \<and> get_state example_consts web1_absent_forced = (STATE_ABSENT, 0)"
proof -
  have f: "forced web1_running_forced \<and> detail web1_running_forced \<noteq> NOT_FOUND"
    by (simp add: forced_def web1_running_forced_def)
  have g: "independent_flags example_consts \<and> \<not> forced web1_initial"
    by (simp add: example_independent forced_def web1_initial_def example_options_def)
  have h: "detail web1_absent_forced = NOT_FOUND"
    by (simp add: web1_absent_forced_def)
  from get_state_outdated [of web1_running_forced example_consts]
       get_state_outdated [of web1_initial example_consts]
       get_state_outdated [of web1_absent_forced example_consts] f g h
  show ?thesis by blast
qed

section \<open>Properties of get_extended\<close>

lemma extend_loop_error:
  assumes "\<And>c e. rec c = Inl e \<Longrightarrow> ext_error self e"
  shows "extend_loop merge rec self acc names = Inl e \<Longrightarrow> ext_error self e"
proof (induction names arbitrary: acc)
  case Nil
  then show ?case by simp
next
  case (Cons n names)
  then show ?case using assms
    by (auto simp: ext_error_def split: option.splits sum.splits)
qed

lemma get_extended_error:
  "get_extended depth merge new_config self config = Inl e \<Longrightarrow> ext_error self e"
proof (induction depth arbitrary: config e)
  case 0
  then show ?case by (simp add: ext_error_def)
next
  case (Suc depth)
  from Suc.prems obtain e' where
    "extend_loop merge (get_extended depth merge new_config self) self new_config (extends config) = Inl e'"
    and "e' = e"
    by (auto split: if_splits sum.splits)
  then show ?case using extend_loop_error [of "get_extended depth merge new_config self" self] Suc.IH
    by blast
qed

lemma extend_loop_fails:
  assumes "n \<in> set names" "map_of (containers self) n = Some c" "rec c = Inl e"
  shows "\<exists>e'. extend_loop merge rec self acc names = Inl e'"
  using assms(1)
proof (induction names arbitrary: acc)
  case Nil
  then show ?case by simp
next
  case (Cons a names)
  show ?case
  proof (cases "a = n")
    case True
    with assms show ?thesis by simp
  next
    case False
    with Cons show ?thesis by (auto split: option.splits sum.splits)
  qed
qed

lemma cycle_step:
  assumes "(c, d) \<in> (extends_rel self)\<^sup>*" "(d, d) \<in> (extends_rel self)\<^sup>+"
  shows "\<exists>c'. (c, c') \<in> extends_rel self \<and> (\<exists>d'. (c', d') \<in> (extends_rel self)\<^sup>* \<and> (d', d') \<in> (extends_rel self)\<^sup>+)"
proof (cases "c = d")
  case True
  from assms(2) obtain c' where "(d, c') \<in> extends_rel self" "(c', d) \<in> (extends_rel self)\<^sup>*"
    by (meson tranclD)
  with True assms(2) show ?thesis by blast
next
  case False
  with assms(1) obtain c' where "(c, c') \<in> extends_rel self" "(c', d) \<in> (extends_rel self)\<^sup>*"
    by (meson converse_rtranclE)
  with assms(2) show ?thesis by blast
qed

lemma get_extended_cycle_fails:
  assumes "\<not> extended self"
  shows "(c, d) \<in> (extends_rel self)\<^sup>* \<Longrightarrow> (d, d) \<in> (extends_rel self)\<^sup>+ \<Longrightarrow>
         \<exists>e. get_extended depth merge new_config self c = Inl e"
proof (induction depth arbitrary: c d)
  case 0
  show ?case by simp
next
  case (Suc depth)
  from cycle_step [OF Suc.prems] obtain c' d' where
    st: "(c, c') \<in> extends_rel self" and r: "(c', d') \<in> (extends_rel self)\<^sup>*"
    and cy: "(d', d') \<in> (extends_rel self)\<^sup>+" by blast
  from st obtain n where n: "n \<in> set (extends c)" "map_of (containers self) n = Some c'"
    by (auto simp: extends_rel_def)
  from Suc.IH [OF r cy] obtain e where e: "get_extended depth merge new_config self c' = Inl e"
    by blast
  from extend_loop_fails [where rec = "get_extended depth merge new_config self"
        and merge = merge and acc = new_config, OF n e]
  obtain e' where
    "extend_loop merge (get_extended depth merge new_config self) self new_config (extends c) = Inl e'"
    by blast
  with n assms show ?case by auto
qed

text \<open>
  C2 (as the code behaves). On a map that is not flagged extended, resolving a unit that
  lies on a cycle of \<open>extends\<close> never returns a configuration, whatever the recursion limit:
  it ends in the interpreter's RecursionError, or in the KeyError of a parent name that the
  map does not hold and that is met before the recursion is exhausted. \<open>get_extended\<close> has
  no cycle guard of its own.
\<close>

theorem get_extended_cycle:
  assumes "\<not> extended self" and "(config, config) \<in> (extends_rel self)\<^sup>+"
  shows "get_extended depth merge new_config self config = Inl RecursionError
         \<or> (\<exists>n. get_extended depth merge new_config self config = Inl (KeyError [n])
                \<and> map_of (containers self) n = None)"
proof -
  from get_extended_cycle_fails [OF assms(1) _ assms(2), of config depth merge new_config]
  obtain e where e: "get_extended depth merge new_config self config = Inl e" by blast
  from get_extended_error [OF e] e show ?thesis by (auto simp: ext_error_def)
qed

lemma cycle_map_cycle:
  "(empty_config\<lparr>extends := [''b'']\<rparr>, empty_config\<lparr>extends := [''b'']\<rparr>) \<in> (extends_rel cycle_map)\<^sup>+"
proof -
  have 1: "(empty_config\<lparr>extends := [''b'']\<rparr>, empty_config\<lparr>extends := [''a'']\<rparr>) \<in> extends_rel cycle_map"
    by (simp add: extends_rel_def cycle_map_def)
  have 2: "(empty_config\<lparr>extends := [''a'']\<rparr>, empty_config\<lparr>extends := [''b'']\<rparr>) \<in> extends_rel cycle_map"
    by (simp add: extends_rel_def cycle_map_def)
  from 1 2 show ?thesis by (rule trancl.intros(2) [OF trancl.intros(1)])
qed

text \<open>
  The two-unit cycle \<open>a\<close>, \<open>b\<close>: resolution ends in RecursionError.
\<close>

theorem get_extended_cycle_witness:
  "\<not> extended cycle_map
   \<and> get_extended 3 example_merge empty_config cycle_map (empty_config\<lparr>extends := [''b'']\<rparr>)
       = Inl RecursionError"
proof -
  have h: "\<not> extended cycle_map" by (simp add: cycle_map_def new_ContainerMap_def)
  have ex: "map_of (containers cycle_map) ''a'' \<noteq> None" "map_of (containers cycle_map) ''b'' \<noteq> None"
    by (simp_all add: cycle_map_def)
  have nk: "get_extended 3 example_merge empty_config cycle_map (empty_config\<lparr>extends := [''b'']\<rparr>)
              \<noteq> Inl (KeyError [n])" for n
    by (simp add: eval_nat_numeral cycle_map_def new_ContainerMap_def empty_config_def)
  from get_extended_cycle [OF h cycle_map_cycle, of 3 example_merge empty_config] nk h
  show ?thesis by blast
qed

text \<open>
  C2 as stated fails: the unit \<open>a\<close> extends a missing parent and then itself, so it is on a
  cycle, and its resolution raises the KeyError of the missing name, not a recursion or
  cycle error.
\<close>

theorem get_extended_cycle_counterexample:
  "\<not> extended missing_parent_map
   \<and> (empty_config\<lparr>extends := [''missing'', ''a'']\<rparr>, empty_config\<lparr>extends := [''missing'', ''a'']\<rparr>)
        \<in> (extends_rel missing_parent_map)\<^sup>+
   \<and> get_extended 1000 example_merge empty_config missing_parent_map
        (empty_config\<lparr>extends := [''missing'', ''a'']\<rparr>) = Inl (KeyError [''missing''])"
proof -
  have 1: "(empty_config\<lparr>extends := [''missing'', ''a'']\<rparr>, empty_config\<lparr>extends := [''missing'', ''a'']\<rparr>)
        \<in> extends_rel missing_parent_map"
    by (simp add: extends_rel_def missing_parent_map_def)
  have e: "(1000::nat) = Suc 999" by simp
  have "get_extended (Suc d) example_merge empty_config missing_parent_map
        (empty_config\<lparr>extends := [''missing'', ''a'']\<rparr>) = Inl (KeyError [''missing''])" for d
    by (simp add: missing_parent_map_def new_ContainerMap_def empty_config_def)
  from this [of 999] have 2: "get_extended 1000 example_merge empty_config missing_parent_map
        (empty_config\<lparr>extends := [''missing'', ''a'']\<rparr>) = Inl (KeyError [''missing''])"
    by (simp only: e)
  have 3: "\<not> extended missing_parent_map" by (simp add: missing_parent_map_def new_ContainerMap_def)
  from 1 2 3 show ?thesis by (simp add: trancl.intros(1))
qed

section \<open>Properties of get_extended_map\<close>










lemma get_extended_of_extended:
  "extended self \<Longrightarrow> get_extended (Suc d) merge new_config self c = Inr c"
  by simp







section \<open>Properties of dependency_items\<close>

lemma groupby_keys: "fst ` set (groupby key xs) = key ` set xs"
proof (induction key xs rule: groupby.induct)
  case (1 key)
  show ?case by simp
next
  case (2 key x xs)
  have "set xs = set (takeWhile (\<lambda>y. key y = key x) xs) \<union> set (dropWhile (\<lambda>y. key y = key x) xs)"
    by (metis set_append takeWhile_dropWhile_id)
  then have "key ` set xs \<subseteq> insert (key x) (key ` set (dropWhile (\<lambda>y. key y = key x) xs))"
    by (auto dest: set_takeWhileD)
  moreover have "key ` set (dropWhile (\<lambda>y. key y = key x) xs) \<subseteq> key ` set xs"
    by (auto dest: set_dropWhileD)
  ultimately show ?case using 2 by auto
qed

lemma group_item_key:
  "group_item get_instances ext_map ext_maps grp = Inr y \<Longrightarrow> get_map_config y = fst grp"
  by (auto simp: group_item_def Let_def get_map_config_def split: sum.splits option.splits if_splits)

lemma collect_keys:
  assumes "\<And>x y. f x = Inr y \<Longrightarrow> k y = fst x"
  shows "collect f xs = Inr ys \<Longrightarrow> map k ys = map fst xs"
proof (induction xs arbitrary: ys)
  case Nil
  then show ?case by simp
next
  case (Cons x xs)
  from Cons.prems obtain y ys' where y: "f x = Inr y" and r: "collect f xs = Inr ys'"
    and ys: "ys = y # ys'"
    by (auto split: sum.splits)
  from assms [OF y] Cons.IH [OF r] ys show ?case by simp
qed

lemma group_instances_keys:
  assumes "group_instances get_instances ext_map ext_maps config_ids = Inr ids"
  shows "get_map_config ` set ids = get_map_config ` set config_ids"
proof -
  from assms have c: "collect (group_item get_instances ext_map ext_maps)
             (groupby get_map_config (sort_key get_map_config config_ids)) = Inr ids"
    by (auto simp: group_instances_def split: if_splits)
  have "map get_map_config ids = map fst (groupby get_map_config (sort_key get_map_config config_ids))"
    by (rule collect_keys [OF _ c]) (rule group_item_key)
  then have "get_map_config ` set ids
             = fst ` set (groupby get_map_config (sort_key get_map_config config_ids))"
    by (metis set_map)
  then show ?thesis by (simp add: groupby_keys)
qed

lemma collect_related:
  assumes "\<And>x y. x \<in> set xs \<Longrightarrow> f x = Inr y \<Longrightarrow> \<exists>z. g x = Inr z \<and> R y z"
  shows "collect f xs = Inr ys \<Longrightarrow> \<exists>zs. collect g xs = Inr zs \<and> list_all2 R ys zs"
  using assms
proof (induction xs arbitrary: ys)
  case Nil
  then show ?case by simp
next
  case (Cons x xs)
  from Cons.prems(1) obtain y ys' where y: "f x = Inr y" and r: "collect f xs = Inr ys'"
    and ys: "ys = y # ys'"
    by (auto split: sum.splits)
  from Cons.prems(2) [of x y] y obtain z where z: "g x = Inr z" "R y z" by auto
  from Cons.IH [OF r] Cons.prems(2) obtain zs where zs: "collect g xs = Inr zs" "list_all2 R ys' zs"
    by auto
  from z zs ys show ?case by simp
qed

lemma dependency_entry_forward:
  assumes "dependency_entry self ext_map False item = Inr y"
  shows "\<exists>S. y = ForwardItem (name self, fst item) S
           \<and> dependency_entry self ext_map True item
               = Inr (ReverseItem (name self, fst item, [None]) (get_map_config ` S))"
proof -
  from assms obtain dep_set where d: "get_dep_set self ext_map (snd item) = Inr dep_set"
    by (auto simp: dependency_entry_def split: sum.splits)
  with assms obtain ids where
    g: "group_instances get_single_instances (Some ext_map) [] dep_set = Inr ids"
    and y: "y = ForwardItem (name self, fst item) (set ids)"
    by (auto simp: dependency_entry_def split: sum.splits error.splits list.splits)
  from group_instances_keys [OF g] d y show ?thesis
    by (simp add: dependency_entry_def)
qed

text \<open>
  C8 (as the code yields). Whenever forward mode returns, reverse mode returns as well, with
  one entry per forward entry in the same order: for the unit \<open>A\<close> with the forward set \<open>S\<close>, the
  address \<open>(map, A, (None,))\<close> and the set of the \<open>(map, unit)\<close> pairs of the ids in \<open>S\<close>. The
  entry of \<open>A\<close> holds the units \<open>A\<close> depends on, with the instances discarded; nothing is
  inverted in \<open>dependency_items\<close>.
\<close>

theorem dependency_items_reverse:
  assumes "dependency_items depth merge new_config self False = Inr fwd"
  shows "\<exists>rev. dependency_items depth merge new_config self True = Inr rev
           \<and> list_all2 (\<lambda>f r. \<exists>c S. f = ForwardItem (name self, c) S
                                  \<and> r = ReverseItem (name self, c, [None]) (get_map_config ` S))
                fwd rev"
proof -
  from assms obtain ext_map where
    e: "(if extended self then Inr self else get_extended_map depth merge new_config self)
          = Inr ext_map"
    and c: "collect (dependency_entry self ext_map False) (iter_map ext_map) = Inr fwd"
    by (auto simp: dependency_items_def split: sum.splits)
  have "\<exists>rev. collect (dependency_entry self ext_map True) (iter_map ext_map) = Inr rev
           \<and> list_all2 (\<lambda>f r. \<exists>c S. f = ForwardItem (name self, c) S
                                  \<and> r = ReverseItem (name self, c, [None]) (get_map_config ` S))
                fwd rev"
    by (rule collect_related [OF _ c]) (use dependency_entry_forward in blast)
  with e show ?thesis by (simp add: dependency_items_def)
qed

lemma web_data_forward:
  "dependency_items 5 example_merge empty_config web_data_map False
     = Inr [ForwardItem (''m'', ''web'') {(''m'', ''data'', [None])},
            ForwardItem (''m'', ''data'') {}]"
  by (simp add: dependency_items_def web_data_map_def new_ContainerMap_def get_extended_map_def
        update_from_obj_def iter_map_def empty_config_def eval_nat_numeral dependency_entry_def
        get_dep_set_def get_used_item_np_def attached_items_def partition_dot_def or_None_def
        group_instances_def group_item_def get_single_instances_def get_map_config_def
        c_map_of_def get_existing_def)

lemma web_data_reverse:
  "dependency_items 5 example_merge empty_config web_data_map True
     = Inr [ReverseItem (''m'', ''web'', [None]) {(''m'', ''data'')},
            ReverseItem (''m'', ''data'', [None]) {}]"
  by (simp add: dependency_items_def web_data_map_def new_ContainerMap_def get_extended_map_def
        update_from_obj_def iter_map_def empty_config_def eval_nat_numeral dependency_entry_def
        get_dep_set_def get_used_item_np_def attached_items_def partition_dot_def or_None_def
        get_map_config_def)

text \<open>
  \<open>web\<close> uses \<open>data\<close>: both modes give \<open>web\<close> the dependency \<open>data\<close>.
\<close>

theorem dependency_items_reverse_witness:
  "dependency_items 5 example_merge empty_config web_data_map False
     = Inr [ForwardItem (''m'', ''web'') {(''m'', ''data'', [None])},
            ForwardItem (''m'', ''data'') {}]
   \<and> dependency_items 5 example_merge empty_config web_data_map True
     = Inr [ReverseItem (''m'', ''web'', [None]) {(''m'', ''data'')},
            ReverseItem (''m'', ''data'', [None]) {}]"
proof -
  from dependency_items_reverse [OF web_data_forward]
  obtain rev where r: "dependency_items 5 example_merge empty_config web_data_map True = Inr rev"
    and l: "list_all2 (\<lambda>f r. \<exists>c S. f = ForwardItem (name web_data_map, c) S
                            \<and> r = ReverseItem (name web_data_map, c, [None]) (get_map_config ` S))
             [ForwardItem (''m'', ''web'') {(''m'', ''data'', [None])},
              ForwardItem (''m'', ''data'') {}] rev"
    by blast
  from l have "rev = [ReverseItem (''m'', ''web'', [None]) {(''m'', ''data'')},
                      ReverseItem (''m'', ''data'', [None]) {}]"
    by (auto simp: list_all2_Cons1 web_data_map_def new_ContainerMap_def get_map_config_def)
  with r web_data_forward show ?thesis by simp
qed

text \<open>
  C8 as stated fails: forward mode has the edge from \<open>web\<close> to \<open>data\<close>, and the reverse-mode entry
  of \<open>data\<close> is the empty set, which does not hold \<open>web\<close>.
\<close>

theorem dependency_items_reverse_counterexample:
  "dependency_items 5 example_merge empty_config web_data_map False
     = Inr [ForwardItem (''m'', ''web'') {(''m'', ''data'', [None])},
            ForwardItem (''m'', ''data'') {}]
   \<and> dependency_items 5 example_merge empty_config web_data_map True
     = Inr [ReverseItem (''m'', ''web'', [None]) {(''m'', ''data'')},
            ReverseItem (''m'', ''data'', [None]) {}]
   \<and> \<not> (\<exists>D. ReverseItem (''m'', ''data'', [None]) D
                  \<in> set [ReverseItem (''m'', ''web'', [None]) {(''m'', ''data'')},
                          ReverseItem (''m'', ''data'', [None]) {}]
              \<and> (''m'', ''web'') \<in> D)"
  using web_data_forward web_data_reverse by auto

section \<open>Properties of check_integrity\<close>

lemmas integrity_eval =
  check_integrity_def get_extended_map_def update_from_obj_def new_ContainerMap_def iter_map_def
  empty_config_def get_container_items_def get_instance_names_def ambiguous_names_def
  missing_refs_def duplicated_def missing_shares_def missing_binds_def missing_names_def
  missing_links_def missing_networks_def volume_shared_def all_attached_names_def
  eval_nat_numeral Let_def

lemma web_uses_attached_passes:
  "check_integrity 5 example_merge empty_config web_uses_attached True = Inr ()"
  by (simp add: integrity_eval web_uses_attached_def)

lemma web_uses_unattached_fails:
  "check_integrity 5 example_merge empty_config web_uses_unattached True
     = Inl (MapIntegrityError MissingShares {''data-vol''})"
  by (simp add: integrity_eval web_uses_unattached_def) 

lemma web_group_collision_fails:
  "check_integrity 5 example_merge empty_config web_group_collision True
     = Inl (MapIntegrityError AmbiguousNames {''web''})"
  by (simp add: integrity_eval web_group_collision_def) 

lemma used_in_items:
  "(c_name, c_config) \<in> set its \<Longrightarrow> u \<in> fst ` set (uses c_config) \<Longrightarrow>
   u \<in> set (concat (map ci_uses (map (get_container_items self) its)))"
  by (force simp: get_container_items_def Let_def)

lemma not_in_volume_shared:
  assumes "\<forall>item \<in> set its.
             (shares (snd item) \<noteq> [] \<or> binds (snd item) \<noteq> [] \<or> uses (snd item) \<noteq> []) \<longrightarrow>
             u \<notin> set (get_instance_names (fst item) (instances (snd item)))"
    and "\<forall>item \<in> set its. \<forall>a \<in> set (attaches (snd item)).
             u \<noteq> (if use_attached_parent_name self then fst item @ ''.'' @ a else a)"
  shows "u \<notin> set (volume_shared (map (get_container_items self) its))"
proof -
  have 1: "u \<notin> set (concat (map ci_shared (map (get_container_items self) its)))"
    using assms(1) by (auto simp: get_container_items_def Let_def split: if_splits)
  have 2: "u \<notin> set (all_attached_names (map (get_container_items self) its))"
  proof
    assume "u \<in> set (all_attached_names (map (get_container_items self) its))"
    then obtain item a where "item \<in> set its" "a \<in> set (attaches (snd item))"
      "u = (if use_attached_parent_name self then fst item @ ''.'' @ a else a)"
      by (auto simp: all_attached_names_def get_container_items_def Let_def split: if_splits)
    with assms(2) show False by blast
  qed
  from 1 2 show ?thesis by (simp add: volume_shared_def)
qed

text \<open>
  C9 (as the code checks). Let the rules that are tried first pass (no name is both a group
  and a unit or instance, every group reference exists, and no shared or attached volume is
  duplicated when duplicates are checked). If a non-abstract unit of the extended map uses
  a volume \<open>u\<close> that is neither an instance name of a unit with \<open>shares\<close>, \<open>binds\<close> or \<open>uses\<close> nor
  the name of an attached volume, then \<open>check_integrity\<close> raises the MapIntegrityError of
  the missing shares, which names every such volume, \<open>u\<close> among them.
\<close>

theorem check_integrity_missing_shares:
  assumes ext: "get_extended_map depth merge new_config self = Inr ext_map"
    and unit: "(c_name, c_config) \<in> set (iter_map ext_map)"
    and use: "u \<in> fst ` set (uses c_config)"
    and not_shared: "\<forall>item \<in> set (iter_map ext_map).
             (shares (snd item) \<noteq> [] \<or> binds (snd item) \<noteq> [] \<or> uses (snd item) \<noteq> []) \<longrightarrow>
             u \<notin> set (get_instance_names (fst item) (instances (snd item)))"
    and not_attached: "\<forall>item \<in> set (iter_map ext_map). \<forall>a \<in> set (attaches (snd item)).
             u \<noteq> (if use_attached_parent_name self then fst item @ ''.'' @ a else a)"
    and names: "ambiguous_names self (map (get_container_items self) (iter_map ext_map)) = {}"
    and refs: "missing_refs self (map (get_container_items self) (iter_map ext_map)) = {}"
    and dups: "check_duplicates \<longrightarrow>
                 duplicated (map (get_container_items self) (iter_map ext_map)) = {}"
  shows "check_integrity depth merge new_config self check_duplicates
           = Inl (MapIntegrityError MissingShares
                    (missing_shares (map (get_container_items self) (iter_map ext_map))))
         \<and> u \<in> missing_shares (map (get_container_items self) (iter_map ext_map))"
proof -
  let ?items = "map (get_container_items self) (iter_map ext_map)"
  from unit have ne: "?items \<noteq> []" by auto
  from used_in_items [OF unit use] not_in_volume_shared [OF not_shared not_attached]
  have u: "u \<in> missing_shares ?items" by (simp add: missing_shares_def)
  then have "missing_shares ?items \<noteq> {}" by blast
  with ext ne names refs dups u show ?thesis
    by (auto simp: check_integrity_def Let_def)
qed

text \<open>
  The scenario: with \<open>data\<close> attaching \<open>data-vol\<close> the check passes; without the declaration it
  raises the error that names \<open>data-vol\<close>.
\<close>

theorem check_integrity_missing_shares_witness:
  "check_integrity 5 example_merge empty_config web_uses_attached True = Inr ()
   \<and> check_integrity 5 example_merge empty_config web_uses_unattached True
       = Inl (MapIntegrityError MissingShares {''data-vol''})"
proof -
  let ?ext = "web_uses_unattached\<lparr>extended := True\<rparr>"
  have ext: "get_extended_map 5 example_merge empty_config web_uses_unattached = Inr ?ext"
    by (simp add: integrity_eval web_uses_unattached_def)
  have it: "iter_map ?ext = [(''web'', empty_config\<lparr>uses := [(''data-vol'', False)]\<rparr>),
                             (''data'', empty_config)]"
    by (simp add: iter_map_def web_uses_unattached_def new_ContainerMap_def empty_config_def)
  have unit: "(''web'', empty_config\<lparr>uses := [(''data-vol'', False)]\<rparr>) \<in> set (iter_map ?ext)"
    by (simp add: it)
  have use: "''data-vol'' \<in> fst ` set (uses (empty_config\<lparr>uses := [(''data-vol'', False)]\<rparr>))"
    by simp
  have not_shared: "\<forall>item \<in> set (iter_map ?ext).
             (shares (snd item) \<noteq> [] \<or> binds (snd item) \<noteq> [] \<or> uses (snd item) \<noteq> []) \<longrightarrow>
             ''data-vol'' \<notin> set (get_instance_names (fst item) (instances (snd item)))"
    by (simp add: it get_instance_names_def empty_config_def)
  have not_attached: "\<forall>item \<in> set (iter_map ?ext). \<forall>a \<in> set (attaches (snd item)).
             ''data-vol'' \<noteq> (if use_attached_parent_name web_uses_unattached
                               then fst item @ ''.'' @ a else a)"
    by (simp add: iter_map_def empty_config_def web_uses_unattached_def new_ContainerMap_def)
  have names: "ambiguous_names web_uses_unattached
                 (map (get_container_items web_uses_unattached) (iter_map ?ext)) = {}"
    by (simp add: iter_map_def ambiguous_names_def web_uses_unattached_def new_ContainerMap_def)
  have refs: "missing_refs web_uses_unattached
                 (map (get_container_items web_uses_unattached) (iter_map ?ext)) = {}"
    by (simp add: iter_map_def missing_refs_def web_uses_unattached_def new_ContainerMap_def)
  have dups: "True \<longrightarrow> duplicated (map (get_container_items web_uses_unattached) (iter_map ?ext)) = {}"
    by (simp add: iter_map_def duplicated_def volume_shared_def all_attached_names_def
          get_container_items_def get_instance_names_def empty_config_def Let_def
          web_uses_unattached_def new_ContainerMap_def)
  have ms: "missing_shares (map (get_container_items web_uses_unattached) (iter_map ?ext))
              = {''data-vol''}"
    by (simp add: iter_map_def missing_shares_def volume_shared_def all_attached_names_def
          get_container_items_def get_instance_names_def empty_config_def Let_def
          web_uses_unattached_def new_ContainerMap_def)
  from check_integrity_missing_shares [OF ext unit use not_shared not_attached names refs dups]
  have "check_integrity 5 example_merge empty_config web_uses_unattached True
       = Inl (MapIntegrityError MissingShares {''data-vol''})"
    by (simp only: ms)
  with web_uses_attached_passes show ?thesis by simp
qed

text \<open>
  C9 as stated fails when an earlier rule fails: with a group named like the unit \<open>web\<close>, the
  error raised is the one about ambiguous names, which names \<open>web\<close> and not the unresolved
  volume \<open>data-vol\<close>.
\<close>

theorem check_integrity_missing_shares_counterexample:
  "extended web_group_collision
   \<and> ''data-vol'' \<in> missing_shares (map (get_container_items web_group_collision)
                                      (iter_map web_group_collision))
   \<and> check_integrity 5 example_merge empty_config web_group_collision True
       = Inl (MapIntegrityError AmbiguousNames {''web''})
   \<and> ''data-vol'' \<notin> {''web''}"
proof -
  have "''data-vol'' \<in> missing_shares (map (get_container_items web_group_collision)
                                      (iter_map web_group_collision))"
    by (simp add: iter_map_def missing_shares_def volume_shared_def all_attached_names_def
          get_container_items_def get_instance_names_def empty_config_def Let_def
          web_group_collision_def new_ContainerMap_def)
  with web_group_collision_fails show ?thesis
    by (simp add: web_group_collision_def)
qed

section \<open>Properties of get_clients and generate_config_states\<close>

lemma collect_names:
  assumes "\<And>x y. f x = Inr y \<Longrightarrow> fst y = x"
  shows "collect f xs = Inr ys \<Longrightarrow> map fst ys = xs"
proof (induction xs arbitrary: ys)
  case Nil
  then show ?case by simp
next
  case (Cons x xs)
  from Cons.prems obtain y ys' where y: "f x = Inr y" and r: "collect f xs = Inr ys'"
    and ys: "ys = y # ys'"
    by (auto split: sum.splits)
  from assms [OF y] Cons.IH [OF r] ys show ?case by simp
qed

text \<open>
  Called as its signature says, \<open>get_clients\<close> returns the clients named by the first list
  that is not empty: the one of \<open>c_config\<close>, else the one of \<open>c_map\<close>, else the default name.
\<close>

lemma get_clients_names:
  assumes "get_clients self c_config c_map = Inr clnts"
  shows "map fst clnts =
           (if clients_attr c_config \<noteq> [] then clients_attr c_config
            else if clients_attr c_map \<noteq> [] then clients_attr c_map
            else [get_default_client_name])"
proof -
  have n: "\<And>x y. get_client_item self x = Inr y \<Longrightarrow> fst y = x"
    by (auto simp: get_client_item_def split: option.splits)
  from assms obtain names where c: "collect (get_client_item self) names = Inr clnts"
    and names: "names = (if clients_attr c_config \<noteq> [] then clients_attr c_config
            else if clients_attr c_map \<noteq> [] then clients_attr c_map
            else [get_default_client_name])"
    by (simp add: get_clients_def split: if_splits)
  from collect_names [OF n c] names show ?thesis by simp
qed

text \<open>
  C1 at a failing input. Called as its signature says, \<open>get_clients\<close> prefers the client list
  of the unit to that of the map. \<open>generate_config_states\<close> passes the map first, so for the
  unit \<open>web\<close> the clients computed are those of the map; and the loop over them raises
  ValueError at its first item, so the state of no client is reported.
\<close>

theorem generate_config_states_clients:
  "get_clients web_clients_policy (ContainerObject web_clients_config) (MapObject web_clients_map)
     = Inr [(''unit-client'', Client [(''base_url'', PStr ''tcp://unit-host:2375'')],
             [(''base_url'', PStr ''tcp://unit-host:2375'')])]
   \<and> get_clients web_clients_policy (MapObject web_clients_map) (ContainerObject web_clients_config)
     = Inr [(''map-client'', Client [(''base_url'', PStr ''tcp://map-host:2375'')],
             [(''base_url'', PStr ''tcp://map-host:2375'')])]
   \<and> generate_config_states web_clients_policy ITEM_TYPE_CONTAINER ''m'' ''web'' None False
     = Inl (ValueError ''too many values to unpack'')"
  by (simp add: get_clients_def get_client_item_def web_clients_policy_def web_clients_map_def
        web_clients_config_def new_ContainerMap_def empty_config_def generate_config_states_def
        get_existing_def)

section \<open>Properties of group_instances and expand_instances\<close>

lemma nested_filter_Nil: "nested_filter [] xs = xs"
  by (induction xs) auto

lemma sorted_after_run:
  "sorted (map key (x # xs)) \<Longrightarrow> y \<in> set (dropWhile (\<lambda>y. key y = key x) xs) \<Longrightarrow> key x < key y"
proof (induction xs)
  case Nil
  then show ?case by simp
next
  case (Cons a xs)
  show ?case
  proof (cases "key a = key x")
    case True
    with Cons show ?thesis by auto
  next
    case False
    from Cons.prems(1) have "key x \<le> key a" "\<forall>z \<in> set xs. key a \<le> key z" by auto
    with False Cons.prems(2) show ?thesis by (auto simp: order.strict_iff_order)
  qed
qed

lemma distinct_remdups_adj_sorted: "sorted xs \<Longrightarrow> distinct (remdups_adj xs)"
proof (induction xs rule: remdups_adj.induct)
  case 1
  show ?case by simp
next
  case (2 x)
  show ?case by simp
next
  case (3 x y xs)
  then show ?case by (auto simp: order.strict_iff_order)
qed

lemma groupby_sorted:
  "sorted (map key ys) \<Longrightarrow>
   groupby key ys = map (\<lambda>k. (k, filter (\<lambda>x. key x = k) ys)) (remdups_adj (map key ys))"
proof (induction key ys rule: groupby.induct)
  case (1 key)
  show ?case by simp
next
  case (2 key x xs)
  let ?P = "\<lambda>y. key y = key x"
  let ?d = "dropWhile ?P xs"
  have later: "\<And>y. y \<in> set ?d \<Longrightarrow> key x < key y"
    using sorted_after_run [OF "2.prems"] by blast
  have "\<not> ?P y" if "y \<in> set ?d" for y
    using later [OF that] by simp
  then have tw: "takeWhile ?P xs = filter ?P xs"
    by (rule takeWhile_eq_filter)
  have sd: "sorted (map key ?d)"
    using "2.prems" by (simp add: sorted_wrt_map sorted_wrt_dropWhile)
  have ra: "remdups_adj (map key (x # xs)) = key x # remdups_adj (map key ?d)"
    by (simp add: remdups_adj_Cons' dropWhile_map comp_def del: remdups_adj.simps)
  have flt: "filter (\<lambda>z. key z = k) (x # xs) = filter (\<lambda>z. key z = k) ?d"
    if "k \<in> set (remdups_adj (map key ?d))" for k
  proof -
    from that obtain y where y: "y \<in> set ?d" "k = key y" by auto
    from later [OF y(1)] y(2) have ne: "key x \<noteq> k" by simp
    have e: "filter (\<lambda>z. key z = k) (takeWhile ?P xs) = []"
      using ne by (auto simp: filter_empty_conv dest: set_takeWhileD)
    have "filter (\<lambda>z. key z = k) xs
            = filter (\<lambda>z. key z = k) (takeWhile ?P xs) @ filter (\<lambda>z. key z = k) ?d"
      by (metis filter_append takeWhile_dropWhile_id)
    with e ne show ?thesis by simp
  qed
  have "groupby key (x # xs) = (key x, x # filter ?P xs) # groupby key ?d"
    by (simp add: tw)
  also have "groupby key ?d
      = map (\<lambda>k. (k, filter (\<lambda>z. key z = k) ?d)) (remdups_adj (map key ?d))"
    by (rule "2.IH" [OF sd])
  also have "\<dots> = map (\<lambda>k. (k, filter (\<lambda>z. key z = k) (x # xs))) (remdups_adj (map key ?d))"
    by (rule map_cong) (simp_all only: flt)
  finally show ?case by (simp only: ra) simp
qed

lemma groupby_distinct:
  "distinct (map key xs) \<Longrightarrow> groupby key xs = map (\<lambda>x. (key x, [x])) xs"
proof (induction xs)
  case Nil
  show ?case by simp
next
  case (Cons x xs)
  then have n: "\<forall>y \<in> set xs. key y \<noteq> key x" by (auto simp: image_iff)
  then have "takeWhile (\<lambda>y. key y = key x) xs = []" "dropWhile (\<lambda>y. key y = key x) xs = xs"
    by (cases xs; simp)+
  with Cons show ?case by simp
qed

lemma collect_map: "\<forall>x \<in> set xs. f x = Inr (g x) \<Longrightarrow> collect f xs = Inr (map g xs)"
  by (induction xs) auto

lemma filter_concat_unit:
  assumes "distinct ks" "k \<in> set ks" "\<forall>k' \<in> set ks. \<forall>x \<in> set (r k'). key x = k'"
  shows "filter (\<lambda>x. key x = k) (concat (map r ks)) = r k"
  using assms
proof (induction ks)
  case Nil
  then show ?case by simp
next
  case (Cons a ks)
  show ?case
  proof (cases "a = k")
    case True
    with Cons.prems have "\<forall>k' \<in> set ks. \<forall>x \<in> set (r k'). key x \<noteq> k" by auto
    then have "filter (\<lambda>x. key x = k) (concat (map r ks)) = []"
      by (auto simp: filter_empty_conv)
    moreover from True Cons.prems have "filter (\<lambda>x. key x = k) (r a) = r a"
      by (auto simp: filter_id_conv)
    ultimately show ?thesis using True by simp
  next
    case False
    with Cons.prems have "filter (\<lambda>x. key x = k) (r a) = []"
      by (auto simp: filter_empty_conv)
    moreover from False Cons have "filter (\<lambda>x. key x = k) (concat (map r ks)) = r k" by auto
    ultimately show ?thesis by simp
  qed
qed

lemma group_item_unit:
  "unit_config ext_map ext_maps k = Some config \<Longrightarrow>
   group_item get_instances ext_map ext_maps (k, items)
     = Inr (fst k, snd k,
            if instances config \<noteq> []
               \<and> (None \<in> set (get_instances items)
                  \<or> length (get_instances items) = length (instances config))
            then [None] else get_instances items)"
  by (auto simp: unit_config_def group_item_def Let_def split: sum.splits)

lemma expand_item_unit:
  "unit_config ext_map ext_maps k = Some config \<Longrightarrow>
   expand_item get_instances ext_map ext_maps (k, items)
     = Inr (if instances config \<noteq> [] \<and> None \<in> set (get_instances items)
            then map (\<lambda>i. (fst k, snd k, Some i)) (instances config)
            else map (\<lambda>i. (fst k, snd k, i)) (get_instances items))"
  by (auto simp: unit_config_def expand_item_def Let_def split: sum.splits)

lemma unit_ids_single:
  "map (\<lambda>i. (fst k, snd k, i)) (get_single_instances (unit_ids k ids)) = unit_ids k ids"
  by (induction ids) (auto simp: unit_ids_def get_single_instances_def get_map_config_def)

lemma filter_concat_other:
  assumes "k \<notin> set ks" "\<forall>k' \<in> set ks. \<forall>x \<in> set (r k'). key x = k'"
  shows "filter (\<lambda>x. key x = k) (concat (map r ks)) = []"
  using assms by (auto simp: filter_empty_conv)

lemma unit_ids_concat:
  assumes "distinct ks" "k \<in> set ks" "\<forall>k' \<in> set ks. \<forall>x \<in> set (r k'). get_map_config x = k'"
  shows "unit_ids k (concat (map r ks)) = r k"
  unfolding unit_ids_def using assms by (rule filter_concat_unit)

lemma unit_ids_concat_other:
  assumes "k \<notin> set ks" "\<forall>k' \<in> set ks. \<forall>x \<in> set (r k'). get_map_config x = k'"
  shows "unit_ids k (concat (map r ks)) = []"
  unfolding unit_ids_def using assms by (rule filter_concat_other)

text \<open>
  The groups that both functions iterate over: one group per unit of the batch, in the order
  of the keys, holding the ids of the unit in the order of the batch (\<open>sorted\<close> is stable).
\<close>

lemma groupby_batch:
  "groupby get_map_config (sort_key get_map_config config_ids)
     = map (\<lambda>k. (k, unit_ids k config_ids))
         (remdups_adj (map get_map_config (sort_key get_map_config config_ids)))"
  using groupby_sorted [of get_map_config "sort_key get_map_config config_ids"]
  by (simp add: sort_key_stable unit_ids_def)

text \<open>
  What \<open>group_instances\<close> yields for a batch whose units all exist, in either mode: one id per
  unit, with the wildcard tuple when the unit declares instances and the instances collected
  from the batch hold the wildcard or are as many as the declared ones, and with the collected
  instances otherwise.
\<close>

lemma group_instances_batch:
  assumes maps: "\<not> (ext_map = None \<and> ext_maps = [])"
    and units: "\<forall>di \<in> set config_ids. unit_config ext_map ext_maps (get_map_config di) \<noteq> None"
  shows "group_instances get_instances ext_map ext_maps config_ids
         = Inr (map
             (\<lambda>k. (fst k, snd k,
                    if instances (the (unit_config ext_map ext_maps k)) \<noteq> []
                       \<and> (None \<in> set (get_instances (unit_ids k config_ids))
                          \<or> length (get_instances (unit_ids k config_ids))
                             = length (instances (the (unit_config ext_map ext_maps k))))
                    then [None] else get_instances (unit_ids k config_ids)))
             (remdups_adj (map get_map_config (sort_key get_map_config config_ids))))"
proof -
  let ?K = "remdups_adj (map get_map_config (sort_key get_map_config config_ids))"
  let ?cfg = "\<lambda>k. the (unit_config ext_map ext_maps k)"
  let ?xs = "\<lambda>k. get_instances (unit_ids k config_ids)"
  let ?W = "\<lambda>k. instances (?cfg k) \<noteq> []
                 \<and> (None \<in> set (?xs k) \<or> length (?xs k) = length (instances (?cfg k)))"
  let ?g = "\<lambda>k. (fst k, snd k, if ?W k then [None] else ?xs k)"
  have setK: "set ?K = get_map_config ` set config_ids" by simp
  have cfg: "unit_config ext_map ext_maps k = Some (?cfg k)" if "k \<in> set ?K" for k
    using that units setK by auto
  have "collect (group_item get_instances ext_map ext_maps)
          (map (\<lambda>k. (k, unit_ids k config_ids)) ?K)
        = Inr (map (\<lambda>p. ?g (fst p)) (map (\<lambda>k. (k, unit_ids k config_ids)) ?K))"
    by (rule collect_map) (auto simp: group_item_unit [OF cfg])
  also have "map (\<lambda>p. ?g (fst p)) (map (\<lambda>k. (k, unit_ids k config_ids)) ?K) = map ?g ?K"
    by (simp only: map_map comp_def fst_conv)
  finally have "collect (group_item get_instances ext_map ext_maps)
          (map (\<lambda>k. (k, unit_ids k config_ids)) ?K) = Inr (map ?g ?K)" .
  with maps show ?thesis
    unfolding group_instances_def groupby_batch by simp
qed

text \<open>
  What the round trip returns for a batch whose units all exist: for each unit, in the
  order of the keys, the declared instances when the ids of the unit in the batch hold the
  wildcard or are as many as the declared instances, and those ids otherwise.
\<close>

lemma round_trip_batch:
  assumes maps: "\<not> (ext_map = None \<and> ext_maps = [])"
    and units: "\<forall>di \<in> set config_ids. unit_config ext_map ext_maps (get_map_config di) \<noteq> None"
  shows "and_then (group_instances get_single_instances ext_map ext_maps config_ids)
           (expand_instances get_nested_instances ext_map ext_maps)
         = Inr (concat (map
             (\<lambda>k. if instances (the (unit_config ext_map ext_maps k)) \<noteq> []
                     \<and> (None \<in> set (get_single_instances (unit_ids k config_ids))
                        \<or> length (get_single_instances (unit_ids k config_ids))
                           = length (instances (the (unit_config ext_map ext_maps k))))
                  then map (\<lambda>i. (fst k, snd k, Some i))
                         (instances (the (unit_config ext_map ext_maps k)))
                  else unit_ids k config_ids)
             (remdups_adj (map get_map_config (sort_key get_map_config config_ids)))))"
proof -
  let ?K = "remdups_adj (map get_map_config (sort_key get_map_config config_ids))"
  let ?cfg = "\<lambda>k. the (unit_config ext_map ext_maps k)"
  let ?xs = "\<lambda>k. get_single_instances (unit_ids k config_ids)"
  let ?W = "\<lambda>k. instances (?cfg k) \<noteq> []
                 \<and> (None \<in> set (?xs k) \<or> length (?xs k) = length (instances (?cfg k)))"
  let ?T = "\<lambda>k. if ?W k then [None] else ?xs k"
  let ?g = "\<lambda>k. (fst k, snd k, ?T k)"
  let ?R = "\<lambda>k. if ?W k then map (\<lambda>i. (fst k, snd k, Some i)) (instances (?cfg k))
                 else unit_ids k config_ids"
  have setK: "set ?K = get_map_config ` set config_ids" by simp
  have sortedK: "sorted ?K" by (simp add: sorted_remdups_adj)
  have distK: "distinct ?K" by (rule distinct_remdups_adj_sorted) simp
  have cfg: "unit_config ext_map ext_maps k = Some (?cfg k)" if "k \<in> set ?K" for k
    using that units setK by auto
  have ne: "?xs k \<noteq> []" if "k \<in> set ?K" for k
    using that setK by (auto simp: get_single_instances_def unit_ids_def filter_empty_conv)
  have grp: "group_instances get_single_instances ext_map ext_maps config_ids = Inr (map ?g ?K)"
    by (rule group_instances_batch [OF maps units])
  have keys: "map get_map_config (map ?g ?K) = ?K"
    by (simp add: comp_def get_map_config_def)
  have srt: "sort_key get_map_config (map ?g ?K) = map ?g ?K"
    by (rule sort_key_id_if_sorted) (simp only: keys sortedK)
  have G2: "groupby get_map_config (map ?g ?K) = map (\<lambda>x. (get_map_config x, [x])) (map ?g ?K)"
    by (rule groupby_distinct) (simp only: keys distK)
  have R: "expand_item get_nested_instances ext_map ext_maps (k, [?g k]) = Inr (?R k)"
    if "k \<in> set ?K" for k
  proof (cases "?W k")
    case True
    then have "get_nested_instances [?g k] = [None]"
      by (simp add: get_nested_instances_def)
    with True show ?thesis
      by (simp add: expand_item_unit [OF cfg [OF that]])
  next
    case False
    from False have T: "?T k = ?xs k" by (rule if_not_P)
    from False have Rk: "?R k = unit_ids k config_ids" by (rule if_not_P)
    have n: "get_nested_instances [(fst k, snd k, ?xs k)] = ?xs k"
      using ne [OF that] by (simp add: get_nested_instances_def nested_filter_Nil)
    from False have w: "\<not> (instances (?cfg k) \<noteq> [] \<and> None \<in> set (?xs k))" by blast
    have "expand_item get_nested_instances ext_map ext_maps (k, [(fst k, snd k, ?xs k)])
            = Inr (unit_ids k config_ids)"
      unfolding expand_item_unit [OF cfg [OF that]] n
      using w by (simp only: if_not_P if_False unit_ids_single)
    then show ?thesis unfolding T Rk .
  qed
  have "collect (expand_item get_nested_instances ext_map ext_maps)
          (map (\<lambda>k. (k, [?g k])) ?K)
        = Inr (map (\<lambda>p. ?R (fst p)) (map (\<lambda>k. (k, [?g k])) ?K))"
    by (rule collect_map) (auto simp: R)
  also have "map (\<lambda>p. ?R (fst p)) (map (\<lambda>k. (k, [?g k])) ?K) = map ?R ?K"
    by (simp only: map_map comp_def fst_conv)
  finally have C: "collect (expand_item get_nested_instances ext_map ext_maps)
          (map (\<lambda>k. (k, [?g k])) ?K) = Inr (map ?R ?K)" .
  have G3: "groupby get_map_config (map ?g ?K) = map (\<lambda>k. (k, [?g k])) ?K"
    unfolding G2 by (simp add: comp_def get_map_config_def)
  have "expand_instances get_nested_instances ext_map ext_maps (map ?g ?K)
               = Inr (concat (map ?R ?K))"
    using maps unfolding expand_instances_def srt G3 C by simp
  with grp show ?thesis by (simp only: and_then_def sum.case)
qed

text \<open>The round trip, read for one unit: the ids of the unit in what it returns.\<close>

lemma round_trip_unit:
  assumes maps: "\<not> (ext_map = None \<and> ext_maps = [])"
    and units: "\<forall>di \<in> set config_ids. unit_config ext_map ext_maps (get_map_config di) \<noteq> None"
    and cfg: "unit_config ext_map ext_maps k = Some config"
    and decl: "instances config \<noteq> []"
  shows "\<exists>out. and_then (group_instances get_single_instances ext_map ext_maps config_ids)
                 (expand_instances get_nested_instances ext_map ext_maps) = Inr out
           \<and> unit_ids k out =
               (if None \<in> set (get_single_instances (unit_ids k config_ids))
                   \<or> length (get_single_instances (unit_ids k config_ids))
                      = length (instances config)
                then map (\<lambda>i. (fst k, snd k, Some i)) (instances config)
                else unit_ids k config_ids)"
proof -
  let ?K = "remdups_adj (map get_map_config (sort_key get_map_config config_ids))"
  let ?cfg = "\<lambda>k. the (unit_config ext_map ext_maps k)"
  let ?xs = "\<lambda>k. get_single_instances (unit_ids k config_ids)"
  let ?W = "\<lambda>k. instances (?cfg k) \<noteq> []
                 \<and> (None \<in> set (?xs k) \<or> length (?xs k) = length (instances (?cfg k)))"
  let ?R = "\<lambda>k. if ?W k then map (\<lambda>i. (fst k, snd k, Some i)) (instances (?cfg k))
                 else unit_ids k config_ids"
  have setK: "set ?K = get_map_config ` set config_ids" by simp
  have distK: "distinct ?K" by (rule distinct_remdups_adj_sorted) simp
  have own: "\<forall>k' \<in> set ?K. \<forall>x \<in> set (?R k'). get_map_config x = k'"
    by (auto simp: unit_ids_def get_map_config_def)
  have rt: "and_then (group_instances get_single_instances ext_map ext_maps config_ids)
              (expand_instances get_nested_instances ext_map ext_maps)
            = Inr (concat (map ?R ?K))"
    by (rule round_trip_batch [OF maps units])
  have "unit_ids k (concat (map ?R ?K)) =
          (if None \<in> set (?xs k) \<or> length (?xs k) = length (instances config)
           then map (\<lambda>i. (fst k, snd k, Some i)) (instances config)
           else unit_ids k config_ids)"
  proof (cases "k \<in> set ?K")
    case True
    have "unit_ids k (concat (map ?R ?K)) = ?R k"
      by (rule unit_ids_concat [OF distK True own])
    with cfg decl show ?thesis by simp
  next
    case False
    have e: "unit_ids k (concat (map ?R ?K)) = []"
      by (rule unit_ids_concat_other [OF False own])
    from False setK have "unit_ids k config_ids = []"
      by (auto simp: unit_ids_def filter_empty_conv)
    with e decl show ?thesis by (simp add: get_single_instances_def)
  qed
  with rt show ?thesis by blast
qed

text \<open>
  C7 at failing inputs. \<open>_get_nested_instances\<close> adds nothing to \<open>instance_set\<close>, so it
  returns every instance of every id, repeated ones included. For the unit \<open>app\<close> with the
  instances \<open>1, 2\<close>: the ids \<open>('1', '2')\<close> and \<open>('2',)\<close> cover the set \<open>{1, 2}\<close>, and
  \<open>group_instances\<close> yields \<open>('1', '2', '2')\<close> instead of the wildcard; the ids \<open>('1',)\<close> and
  \<open>('1',)\<close> cover the set \<open>{1}\<close>, and it yields the wildcard. With single instance names,
  \<open>{1, 2}\<close> gives the wildcard and \<open>{1}\<close> passes through.
\<close>

theorem group_instances_nested_repeats:
  "get_nested_instances group_items
     = concat (map (\<lambda>di. if snd (snd di) = [] then [None] else snd (snd di)) group_items)
   \<and> group_instances get_nested_instances (Some app_map) []
        [(''m'', ''app'', [Some ''1'', Some ''2'']), (''m'', ''app'', [Some ''2''])]
     = Inr [(''m'', ''app'', [Some ''1'', Some ''2'', Some ''2''])]
   \<and> group_instances get_nested_instances (Some app_map) []
        [(''m'', ''app'', [Some ''1'']), (''m'', ''app'', [Some ''1''])]
     = Inr [(''m'', ''app'', [None])]
   \<and> group_instances get_single_instances (Some app_map) []
        [(''m'', ''app'', Some ''1''), (''m'', ''app'', Some ''2'')]
     = Inr [(''m'', ''app'', [None])]
   \<and> group_instances get_single_instances (Some app_map) [] [(''m'', ''app'', Some ''1'')]
     = Inr [(''m'', ''app'', [Some ''1''])]"
  by (simp add: nested_filter_Nil group_instances_def group_item_def get_nested_instances_def
        get_single_instances_def get_map_config_def c_map_of_def get_existing_def app_map_def
        new_ContainerMap_def empty_config_def Let_def)

text \<open>
  C6. For a batch of ids with single instance names whose units all exist, and a unit with
  declared instances: \<open>group_instances\<close> followed by \<open>expand_instances\<close> returns, and the ids
  of the unit in what it returns are the full declared instance list when the ids of the unit
  in the batch hold the wildcard or are as many as the declared instances, and are those ids,
  unchanged, otherwise. So an instance set (without repetitions) that is a strict subset of
  the declared instances comes back unchanged, a set with the wildcard gives the declared
  list, and the full set gives the declared list when no name is declared twice.
\<close>

theorem group_expand_round_trip:
  assumes maps: "\<not> (ext_map = None \<and> ext_maps = [])"
    and units: "\<forall>di \<in> set config_ids. unit_config ext_map ext_maps (get_map_config di) \<noteq> None"
    and cfg: "unit_config ext_map ext_maps k = Some config"
    and decl: "instances config \<noteq> []"
    and xs: "xs = get_single_instances (unit_ids k config_ids)"
  shows "\<exists>out. and_then (group_instances get_single_instances ext_map ext_maps config_ids)
                 (expand_instances get_nested_instances ext_map ext_maps) = Inr out
           \<and> unit_ids k out =
               (if None \<in> set xs \<or> length xs = length (instances config)
                then map (\<lambda>i. (fst k, snd k, Some i)) (instances config)
                else unit_ids k config_ids)
           \<and> (distinct xs \<and> set xs \<subset> Some ` set (instances config) \<longrightarrow>
                unit_ids k out = unit_ids k config_ids)
           \<and> (None \<in> set xs \<longrightarrow>
                unit_ids k out = map (\<lambda>i. (fst k, snd k, Some i)) (instances config))
           \<and> (distinct xs \<and> distinct (instances config)
                \<and> set xs = Some ` set (instances config) \<longrightarrow>
                unit_ids k out = map (\<lambda>i. (fst k, snd k, Some i)) (instances config))"
proof -
  from round_trip_unit [OF maps units cfg decl] obtain out
    where rt: "and_then (group_instances get_single_instances ext_map ext_maps config_ids)
                 (expand_instances get_nested_instances ext_map ext_maps) = Inr out"
      and u: "unit_ids k out =
               (if None \<in> set xs \<or> length xs = length (instances config)
                then map (\<lambda>i. (fst k, snd k, Some i)) (instances config)
                else unit_ids k config_ids)"
    unfolding xs by blast
  have sub: "unit_ids k out = unit_ids k config_ids"
    if d: "distinct xs" and s: "set xs \<subset> Some ` set (instances config)"
  proof -
    from s have n: "None \<notin> set xs" by auto
    have "card (set xs) < card (Some ` set (instances config))"
      by (rule psubset_card_mono [OF _ s]) simp
    also have "\<dots> \<le> length (instances config)"
      by (simp add: card_image card_length)
    finally have "length xs \<noteq> length (instances config)"
      using distinct_card [OF d] by simp
    with n u show ?thesis by simp
  qed
  have wild: "unit_ids k out = map (\<lambda>i. (fst k, snd k, Some i)) (instances config)"
    if "None \<in> set xs"
    using that u by simp
  have full: "unit_ids k out = map (\<lambda>i. (fst k, snd k, Some i)) (instances config)"
    if d: "distinct xs" and di: "distinct (instances config)"
      and s: "set xs = Some ` set (instances config)"
  proof -
    have "length xs = card (Some ` set (instances config))"
      using distinct_card [OF d] s by simp
    also have "\<dots> = length (instances config)"
      using distinct_card [OF di] by (simp add: card_image)
    finally show ?thesis using u by simp
  qed
  from rt u sub wild full show ?thesis by blast
qed

text \<open>
  The unit \<open>app\<close> declares the instances \<open>1, 2\<close> and the unit \<open>db\<close> the instances \<open>a, b\<close>. In
  the batch \<open>db.a, app.2, app.1\<close> the ids of \<open>app\<close> are the full set and come back as the
  declared list \<open>app.1, app.2\<close>; the id of \<open>db\<close> is a strict subset and comes back unchanged.
\<close>

theorem group_expand_round_trip_witness:
  "(\<exists>out. and_then (group_instances get_single_instances (Some app_map) []
                     [(''m'', ''db'', Some ''a''), (''m'', ''app'', Some ''2''),
                      (''m'', ''app'', Some ''1'')])
            (expand_instances get_nested_instances (Some app_map) []) = Inr out
         \<and> unit_ids (''m'', ''app'') out
             = [(''m'', ''app'', Some ''1''), (''m'', ''app'', Some ''2'')])
   \<and> (\<exists>out. and_then (group_instances get_single_instances (Some app_map) []
                     [(''m'', ''db'', Some ''a''), (''m'', ''app'', Some ''2''),
                      (''m'', ''app'', Some ''1'')])
            (expand_instances get_nested_instances (Some app_map) []) = Inr out
         \<and> unit_ids (''m'', ''db'') out = [(''m'', ''db'', Some ''a'')])
   \<and> and_then (group_instances get_single_instances (Some app_map) []
                 [(''m'', ''db'', Some ''a''), (''m'', ''app'', Some ''2''),
                  (''m'', ''app'', Some ''1'')])
        (expand_instances get_nested_instances (Some app_map) [])
     = Inr [(''m'', ''app'', Some ''1''), (''m'', ''app'', Some ''2''),
            (''m'', ''db'', Some ''a'')]"
proof -
  let ?ids = "[(''m'', ''db'', Some ''a''), (''m'', ''app'', Some ''2''),
               (''m'', ''app'', Some ''1'')]"
  have maps: "\<not> (Some app_map = None \<and> ([] :: (string \<times> container_map) list) = [])"
    by simp
  have units: "\<forall>di \<in> set ?ids. unit_config (Some app_map) [] (get_map_config di) \<noteq> None"
    by (simp add: unit_config_def c_map_of_def get_existing_def get_map_config_def app_map_def
          new_ContainerMap_def)
  have app: "unit_config (Some app_map) [] (''m'', ''app'')
               = Some (empty_config\<lparr>instances := [''1'', ''2'']\<rparr>)"
    by (simp add: unit_config_def c_map_of_def get_existing_def app_map_def new_ContainerMap_def)
  have db: "unit_config (Some app_map) [] (''m'', ''db'')
               = Some (empty_config\<lparr>instances := [''a'', ''b'']\<rparr>)"
    by (simp add: unit_config_def c_map_of_def get_existing_def app_map_def new_ContainerMap_def)
  have xa: "[Some ''2'', Some ''1''] = get_single_instances (unit_ids (''m'', ''app'') ?ids)"
    by (simp add: get_single_instances_def unit_ids_def get_map_config_def)
  have xd: "[Some ''a''] = get_single_instances (unit_ids (''m'', ''db'') ?ids)"
    by (simp add: get_single_instances_def unit_ids_def get_map_config_def)
  have ua: "unit_ids (''m'', ''app'') ?ids = [(''m'', ''app'', Some ''2''), (''m'', ''app'', Some ''1'')]"
    by (simp add: unit_ids_def get_map_config_def)
  have ud: "unit_ids (''m'', ''db'') ?ids = [(''m'', ''db'', Some ''a'')]"
    by (simp add: unit_ids_def get_map_config_def)
  have rt: "and_then (group_instances get_single_instances (Some app_map) [] ?ids)
              (expand_instances get_nested_instances (Some app_map) [])
            = Inr [(''m'', ''app'', Some ''1''), (''m'', ''app'', Some ''2''),
                   (''m'', ''db'', Some ''a'')]"
    by (simp add: group_instances_def group_item_def get_nested_instances_def
          get_map_config_def get_single_instances_def expand_instances_def expand_item_def
          and_then_def c_map_of_def get_existing_def app_map_def new_ContainerMap_def
          empty_config_def Let_def less_eq_prod_def less_eq_char_def less_char_def)
  from group_expand_round_trip [OF maps units app _ xa]
       group_expand_round_trip [OF maps units db _ xd]
  have "(\<exists>out. and_then (group_instances get_single_instances (Some app_map) [] ?ids)
            (expand_instances get_nested_instances (Some app_map) []) = Inr out
         \<and> unit_ids (''m'', ''app'') out
             = [(''m'', ''app'', Some ''1''), (''m'', ''app'', Some ''2'')])
      \<and> (\<exists>out. and_then (group_instances get_single_instances (Some app_map) [] ?ids)
            (expand_instances get_nested_instances (Some app_map) []) = Inr out
         \<and> unit_ids (''m'', ''db'') out = [(''m'', ''db'', Some ''a'')])"
    by (simp add: ua ud) blast
  with rt show ?thesis by (simp only: simp_thms)
qed

text \<open>
  The unit \<open>app\<close> of \<open>repeated_map\<close> declares the instances \<open>1, 1\<close>. The instance set \<open>{1}\<close> is
  the full set of the declared instances, and the round trip returns it unchanged, not the
  declared list: one instance is not as many as the two declared.
\<close>

theorem group_expand_round_trip_counterexample:
  "unit_config (Some repeated_map) [] (''m'', ''app'')
     = Some (empty_config\<lparr>instances := [''1'', ''1'']\<rparr>)
   \<and> set (get_single_instances [(''m'', ''app'', Some ''1'')]) = Some ` set [''1'', ''1'']
   \<and> and_then (group_instances get_single_instances (Some repeated_map) []
                 [(''m'', ''app'', Some ''1'')])
        (expand_instances get_nested_instances (Some repeated_map) [])
     = Inr [(''m'', ''app'', Some ''1'')]
   \<and> and_then (group_instances get_single_instances (Some repeated_map) []
                 [(''m'', ''app'', Some ''1'')])
        (expand_instances get_nested_instances (Some repeated_map) [])
     \<noteq> Inr (map (\<lambda>i. (''m'', ''app'', Some i)) [''1'', ''1''])"
  by (simp add: unit_config_def group_instances_def group_item_def get_nested_instances_def
        get_map_config_def get_single_instances_def expand_instances_def expand_item_def
        and_then_def c_map_of_def get_existing_def repeated_map_def new_ContainerMap_def
        empty_config_def Let_def)

end
